theory Spec2Isabelle
  imports Complex_Main
begin

section \<open>The LIBERO evaluation loop (experiments/robot/libero/run_libero_eval.py)\<close>

text \<open>
  The script drives a simulator and a learned policy. Both are external: they are taken
  as parameters, threaded through an abstract world state \<open>'w\<close>. Every call that the
  source makes inside its \<^verbatim>\<open>try\<close> block may raise; a raise is the value \<open>Inl msg\<close>.
  Python exceptions that the script itself can provoke (an unbound local, an index out of
  range, a missing key, a failed assertion, a division by zero) are values of
  \<open>py_error\<close>. Text written to the log file and the frames buffered for the replay
  video are not modelled; the calls made to the environment are recorded as events.
\<close>

datatype py_error =
    AssertionError string
  | KeyError string
  | IndexError
  | UnboundLocalError string
  | ZeroDivisionError

record GenerateConfig =
  model_family :: string
  pretrained_checkpoint :: "string option"
  load_in_8bit :: bool
  load_in_4bit :: bool
  center_crop :: bool
  task_suite_name :: string
  num_steps_wait :: int
  num_trials_per_task :: int
  use_wandb :: bool

text \<open>A task of a suite: its description and its default initial states.\<close>

record 's task =
  task_description :: string
  initial_states :: "'s list"

text \<open>Floating-point operations of numpy and Python used by the motion tracker, uninterpreted.\<close>

record 'n numpy =
  np_norm :: "'n list \<Rightarrow> 'n"
  np_dot :: "'n list \<Rightarrow> 'n list \<Rightarrow> string + 'n"
  f_mul :: "'n \<Rightarrow> 'n \<Rightarrow> 'n"
  f_add :: "'n \<Rightarrow> 'n \<Rightarrow> 'n"
  f_div :: "'n \<Rightarrow> 'n \<Rightarrow> 'n"
  f_min :: "'n \<Rightarrow> 'n \<Rightarrow> 'n"
  f_eps :: 'n
  f_one :: 'n

record ('w, 'o, 'n, 's) externals =
  norm_stats :: "string list"
  benchmark_dict :: "string \<Rightarrow> 's task list option"
  get_libero_env :: "'w \<Rightarrow> 's task \<Rightarrow> 'w"
  env_reset :: "'w \<Rightarrow> 'w"
  env_set_init_state :: "'w \<Rightarrow> 's \<Rightarrow> 'w \<times> 'o"
  env_step :: "'w \<Rightarrow> 'n list \<Rightarrow> 'w \<times> (string + 'o \<times> bool)"
  get_libero_dummy_action :: "string \<Rightarrow> 'n list"
  get_action :: "'w \<Rightarrow> 'o \<Rightarrow> string \<Rightarrow> int \<Rightarrow> 'w \<times> (string + 'n list)"
  normalize_gripper_action :: "'n list \<Rightarrow> bool \<Rightarrow> string + 'n list"
  invert_gripper_action :: "'n list \<Rightarrow> string + 'n list"
  numpy_ops :: "'n numpy"

datatype ('n, 's) event =
    MakeEnv nat
  | Reset
  | SetInitState 's
  | EnvStep "'n list" "bool option"
  | Caught string
  | Video int bool

record leaf =
  total_times :: int
  success_times :: int

type_synonym json_data = "string \<Rightarrow> (string \<Rightarrow> leaf option) option"

type_synonym files = "string \<Rightarrow> json_data option"

record snapshot =
  task_start :: bool
  s_task_episodes :: int
  s_task_successes :: int
  s_total_episodes :: int
  s_total_successes :: int
  s_files :: files

record 'n motion =
  action_previous :: "'n list option"
  actions_previous_xyz :: "'n list option"
  actions_previous_rot :: "'n list option"

record 'n report =
  xyz_fudu :: 'n
  xyz_changes_dir :: 'n
  rot_fudu :: 'n
  rot_changes_dir :: 'n

record ('w, 'o, 'n, 's) vars =
  world :: 'w
  obs :: "'o option"
  done_flag :: "bool option"
  t :: int
  motion :: "'n motion"
  task_episodes :: int
  task_successes :: int
  total_episodes :: int
  total_successes :: int
  total_steps :: int
  json_files :: files
  motion_trace :: "'n report list"
  events :: "('n, 's) event list"
  history :: "snapshot list"

text \<open>
  \<open>done_flag\<close> is the script's local \<^verbatim>\<open>done\<close> (a keyword here); \<open>None\<close> means that the
  variable is still unbound. Locals of a Python function live until the function returns,
  so \<open>done_flag\<close>, \<open>obs\<close> and the stored previous vectors survive from one episode to
  the next. \<open>events\<close> records the calls made to the simulator and the video writer;
  \<open>history\<close> records the counters each time they are reset or reported.
\<close>

subsection \<open>Run set-up (lines 103 to 158)\<close>

fun contains :: "string \<Rightarrow> string \<Rightarrow> bool" where
  "contains sub [] = (sub = [])"
| "contains sub (c # cs) = (take (length sub) (c # cs) = sub \<or> contains sub cs)"

definition check_config :: "GenerateConfig \<Rightarrow> py_error + unit" where
  "check_config cfg =
     (case pretrained_checkpoint cfg of
        None \<Rightarrow> Inl (AssertionError ''cfg.pretrained_checkpoint must not be None!'')
      | Some ckpt \<Rightarrow>
          if contains ''image_aug'' ckpt \<and> \<not> center_crop cfg
          then Inl (AssertionError ''Expecting `center_crop==True` because model was trained with image augmentations!'')
          else if load_in_8bit cfg \<and> load_in_4bit cfg
          then Inl (AssertionError ''Cannot use both 8-bit and 4-bit quantization!'')
          else Inr ())"

definition unnorm_key :: "string list \<Rightarrow> GenerateConfig \<Rightarrow> py_error + string" where
  "unnorm_key stats cfg =
     (let key = task_suite_name cfg in
      if model_family cfg = ''openvla'' then
        (let key' = (if key \<notin> set stats \<and> (key @ ''_no_noops'') \<in> set stats
                     then key @ ''_no_noops'' else key)
         in if key' \<in> set stats then Inr key'
            else Inl (AssertionError ''Action un-norm key not found in VLA `norm_stats`!''))
      else Inr key)"

definition init_vars :: "'w \<Rightarrow> files \<Rightarrow> ('w, 'o, 'n, 's) vars" where
  "init_vars w fs =
     \<lparr> world = w, obs = None, done_flag = None, t = 0,
       motion = \<lparr> action_previous = None, actions_previous_xyz = None,
                  actions_previous_rot = None \<rparr>,
       task_episodes = 0, task_successes = 0, total_episodes = 0, total_successes = 0,
       total_steps = 0, json_files = fs, motion_trace = [], events = [],
       history = [\<lparr> task_start = False, s_task_episodes = 0, s_task_successes = 0,
                    s_total_episodes = 0, s_total_successes = 0, s_files = fs \<rparr>] \<rparr>"

definition snap :: "bool \<Rightarrow> ('w, 'o, 'n, 's) vars \<Rightarrow> ('w, 'o, 'n, 's) vars" where
  "snap b v =
     v\<lparr> history := history v @
          [\<lparr> task_start = b, s_task_episodes = task_episodes v,
             s_task_successes = task_successes v, s_total_episodes = total_episodes v,
             s_total_successes = total_successes v, s_files = json_files v \<rparr>] \<rparr>"

subsection \<open>The step-count ceiling (lines 197 to 206)\<close>

text \<open>The chain has no \<^verbatim>\<open>else\<close>: for any other name \<^verbatim>\<open>max_steps\<close> stays unbound.\<close>

definition max_steps_for :: "string \<Rightarrow> int option" where
  "max_steps_for name =
     (if name = ''libero_spatial'' then Some 220
      else if name = ''libero_object'' then Some 280
      else if name = ''libero_goal'' then Some 300
      else if name = ''libero_10'' then Some 520
      else if name = ''libero_90'' then Some 400
      else None)"

subsection \<open>The motion tracker (lines 260 to 303)\<close>

definition changes_dir :: "'n numpy \<Rightarrow> 'n \<Rightarrow> 'n \<Rightarrow> 'n \<Rightarrow> 'n" where
  "changes_dir N d fudu previous_fudu =
     f_min N (f_div N d (f_add N (f_mul N fudu previous_fudu) (f_eps N))) (f_one N)"

definition store_previous :: "'n list \<Rightarrow> 'n motion" where
  "store_previous action =
     \<lparr> action_previous = Some action,
       actions_previous_xyz = Some (take 3 action),
       actions_previous_rot = Some (take 3 (drop 3 action)) \<rparr>"

definition tracker_update ::
  "'n numpy \<Rightarrow> 'n motion \<Rightarrow> 'n list \<Rightarrow> string + ('n report option \<times> 'n motion)" where
  "tracker_update N m action =
     (case action_previous m of
        None \<Rightarrow> Inr (None, store_previous action)
      | Some _ \<Rightarrow>
          (case (actions_previous_xyz m, actions_previous_rot m) of
             (Some previous_xyz, Some previous_rot) \<Rightarrow>
               (let actions_xyz = take 3 action;
                    actions_rot = take 3 (drop 3 action);
                    xyz = np_norm N actions_xyz;
                    rot = np_norm N actions_rot;
                    previous_xyz_fudu = np_norm N previous_xyz;
                    previous_rot_fudu = np_norm N previous_rot
                in case np_dot N actions_xyz previous_xyz of
                     Inl e \<Rightarrow> Inl e
                   | Inr dxyz \<Rightarrow>
                       (case np_dot N actions_rot previous_rot of
                          Inl e \<Rightarrow> Inl e
                        | Inr drot \<Rightarrow>
                            Inr (Some \<lparr> xyz_fudu = xyz,
                                         xyz_changes_dir = changes_dir N dxyz xyz previous_xyz_fudu,
                                         rot_fudu = rot,
                                         rot_changes_dir = changes_dir N drot rot previous_rot_fudu \<rparr>,
                                 store_previous action)))
           | _ \<Rightarrow> Inl ''UnboundLocalError''))"

subsection \<open>One pass through the body of the step loop (lines 211 to 334)\<close>

text \<open>How the \<^verbatim>\<open>while\<close> loop is left: \<^verbatim>\<open>break\<close> after a step that reported completion,
  the loop condition becoming false, or \<^verbatim>\<open>break\<close> in the exception handler.\<close>

datatype loop_exit = Completed | Exhausted | Failed string

definition caught ::
  "string \<Rightarrow> ('w, 'o, 'n, 's) vars \<Rightarrow> loop_exit option \<times> ('w, 'o, 'n, 's) vars" where
  "caught e v = (Some (Failed e), v\<lparr> events := events v @ [Caught e] \<rparr>)"

definition settle_step ::
  "('w, 'o, 'n, 's) externals \<Rightarrow> GenerateConfig \<Rightarrow> ('w, 'o, 'n, 's) vars
     \<Rightarrow> loop_exit option \<times> ('w, 'o, 'n, 's) vars" where
  "settle_step X cfg v =
     (let a = get_libero_dummy_action X (model_family cfg) in
      case env_step X (world v) a of
        (w, Inl e) \<Rightarrow> caught e (v\<lparr> world := w, events := events v @ [EnvStep a None] \<rparr>)
      | (w, Inr (ob, d)) \<Rightarrow>
          (None, v\<lparr> world := w, obs := Some ob, done_flag := Some d, t := t v + 1,
                    events := events v @ [EnvStep a (Some d)] \<rparr>))"

definition track ::
  "'n numpy \<Rightarrow> 'n list \<Rightarrow> ('w, 'o, 'n, 's) vars \<Rightarrow> string + ('w, 'o, 'n, 's) vars" where
  "track N action v =
     (case tracker_update N (motion v) action of
        Inl e \<Rightarrow> Inl e
      | Inr (None, m) \<Rightarrow> Inr (v\<lparr> motion := m \<rparr>)
      | Inr (Some r, m) \<Rightarrow> Inr (v\<lparr> motion := m, motion_trace := motion_trace v @ [r] \<rparr>))"

definition post_process ::
  "('w, 'o, 'n, 's) externals \<Rightarrow> GenerateConfig \<Rightarrow> 'n list \<Rightarrow> string + 'n list" where
  "post_process X cfg action =
     (case normalize_gripper_action X action True of
        Inl e \<Rightarrow> Inl e
      | Inr normalized \<Rightarrow>
          if model_family cfg = ''openvla'' then invert_gripper_action X normalized
          else Inr normalized)"

definition acting_step ::
  "('w, 'o, 'n, 's) externals \<Rightarrow> GenerateConfig \<Rightarrow> string \<Rightarrow> ('w, 'o, 'n, 's) vars
     \<Rightarrow> loop_exit option \<times> ('w, 'o, 'n, 's) vars" where
  "acting_step X cfg description v =
     (case obs v of
        None \<Rightarrow> caught ''UnboundLocalError'' v
      | Some ob \<Rightarrow>
          (case get_action X (world v) ob description (t v) of
             (w1, Inl e) \<Rightarrow> caught e (v\<lparr> world := w1 \<rparr>)
           | (w1, Inr action) \<Rightarrow>
               (let v1 = v\<lparr> world := w1 \<rparr>;
                    replan = False
                in case (if replan then track (numpy_ops X) action v1 else Inr v1) of
                     Inl e \<Rightarrow> caught e v1
                   | Inr v2 \<Rightarrow>
                       (case post_process X cfg action of
                          Inl e \<Rightarrow> caught e v2
                        | Inr a \<Rightarrow>
                            (case env_step X (world v2) a of
                               (w3, Inl e) \<Rightarrow>
                                 caught e (v2\<lparr> world := w3,
                                               events := events v2 @ [EnvStep a None] \<rparr>)
                             | (w3, Inr (ob', d)) \<Rightarrow>
                                 (let v3 = v2\<lparr> world := w3, obs := Some ob', done_flag := Some d,
                                                events := events v2 @ [EnvStep a (Some d)] \<rparr>
                                  in if d
                                     then (Some Completed,
                                           v3\<lparr> task_successes := task_successes v3 + 1,
                                               total_successes := total_successes v3 + 1 \<rparr>)
                                     else (None, v3\<lparr> t := t v3 + 1 \<rparr>)))))))"

definition loop_body ::
  "('w, 'o, 'n, 's) externals \<Rightarrow> GenerateConfig \<Rightarrow> string \<Rightarrow> ('w, 'o, 'n, 's) vars
     \<Rightarrow> loop_exit option \<times> ('w, 'o, 'n, 's) vars" where
  "loop_body X cfg description v =
     (if t v < num_steps_wait cfg then settle_step X cfg v
      else acting_step X cfg description v)"

subsection \<open>The step loop (line 210)\<close>

function episode_loop ::
  "('w, 'o, 'n, 's) externals \<Rightarrow> GenerateConfig \<Rightarrow> string \<Rightarrow> int \<Rightarrow> ('w, 'o, 'n, 's) vars
     \<Rightarrow> loop_exit \<times> ('w, 'o, 'n, 's) vars" where
  "episode_loop X cfg description max_steps v =
     (if t v < max_steps + num_steps_wait cfg then
        (case loop_body X cfg description v of
           (Some ex, v') \<Rightarrow> (ex, v')
         | (None, v') \<Rightarrow> episode_loop X cfg description max_steps v')
      else (Exhausted, v))"
  by pat_completeness auto
termination
proof (relation "measure (\<lambda>(X, cfg, description, max_steps, v).
                   nat (max_steps + num_steps_wait cfg - t v))", goal_cases)
  case 1
  show ?case by simp
next
  case (2 X cfg description max_steps v x v')
  then have "loop_body X cfg description v = (None, v')"
    by simp
  then have "t v' = t v + 1"
    by (auto simp: loop_body_def settle_step_def acting_step_def caught_def post_process_def
        Let_def split: prod.splits sum.splits option.splits if_splits)
  with 2 show ?case by simp
qed

declare episode_loop.simps [simp del]

subsection \<open>The per-task result file (lines 340 to 359)\<close>

text \<open>
  \<^verbatim>\<open>scale\<close> is always the empty list and \<^verbatim>\<open>ber\<close> is always 0, so the two keys are the
  strings \<^verbatim>\<open>[]\<close> and \<^verbatim>\<open>0\<close>. The file is taken to hold well-typed data.
\<close>

definition result_file_path :: "string \<Rightarrow> string" where
  "result_file_path description = ''~/openvla/experiments/logs/'' @ description @ ''_log.json''"

definition update_data :: "json_data \<Rightarrow> bool \<Rightarrow> json_data" where
  "update_data data d =
     (let scale = ''[]''; ber = ''0'';
          inner = (case data scale of None \<Rightarrow> Map.empty | Some m \<Rightarrow> m);
          l = (case inner ber of None \<Rightarrow> \<lparr> total_times = 0, success_times = 0 \<rparr> | Some l \<Rightarrow> l);
          l1 = l\<lparr> total_times := total_times l + 1 \<rparr>;
          l2 = (if d then l1\<lparr> success_times := success_times l1 + 1 \<rparr> else l1)
      in data(scale \<mapsto> inner(ber \<mapsto> l2)))"

definition update_result_file :: "files \<Rightarrow> string \<Rightarrow> bool \<Rightarrow> files" where
  "update_result_file fs description d =
     (let file_path = result_file_path description;
          data = (case fs file_path of None \<Rightarrow> Map.empty | Some data \<Rightarrow> data)
      in fs(file_path \<mapsto> update_data data d))"

subsection \<open>One episode (lines 177 to 378)\<close>

text \<open>Lines 187 to 196: reset, initial state, and the locals of the episode.\<close>

definition begin_episode ::
  "('w, 'o, 'n, 's) externals \<Rightarrow> 's task \<Rightarrow> nat \<Rightarrow> ('w, 'o, 'n, 's) vars
     \<Rightarrow> (py_error + unit) \<times> ('w, 'o, 'n, 's) vars" where
  "begin_episode X task episode_idx v =
     (let v1 = v\<lparr> world := env_reset X (world v), events := events v @ [Reset] \<rparr> in
      if \<not> episode_idx < length (initial_states task) then (Inl IndexError, v1)
      else
        (let s0 = initial_states task ! episode_idx;
             (w2, ob) = env_set_init_state X (world v1) s0
         in (Inr (),
             v1\<lparr> world := w2, obs := Some ob, t := 0,
                 motion := (motion v1)\<lparr> action_previous := None \<rparr>,
                 events := events v1 @ [SetInitState s0] \<rparr>)))"

text \<open>Lines 336 to 378: the tallies, the result file and the replay video.\<close>

definition finish_episode ::
  "'s task \<Rightarrow> ('w, 'o, 'n, 's) vars \<Rightarrow> (py_error + unit) \<times> ('w, 'o, 'n, 's) vars" where
  "finish_episode task v3 =
     (let v4 = snap False (v3\<lparr> task_episodes := task_episodes v3 + 1,
                              total_episodes := total_episodes v3 + 1 \<rparr>)
      in case done_flag v4 of
           None \<Rightarrow> (Inl (UnboundLocalError ''done''), v4)
         | Some d \<Rightarrow>
             (Inr (),
              snap False
                (v4\<lparr> json_files :=
                       update_result_file (json_files v4) (task_description task) d,
                     events := events v4 @ [Video (total_episodes v4) d],
                     total_steps := total_steps v4 + t v4 \<rparr>)))"

definition run_episode ::
  "('w, 'o, 'n, 's) externals \<Rightarrow> GenerateConfig \<Rightarrow> 's task \<Rightarrow> nat \<Rightarrow> ('w, 'o, 'n, 's) vars
     \<Rightarrow> (py_error + unit) \<times> ('w, 'o, 'n, 's) vars" where
  "run_episode X cfg task episode_idx v =
     (case begin_episode X task episode_idx v of
        (Inl e, v1) \<Rightarrow> (Inl e, v1)
      | (Inr _, v2) \<Rightarrow>
          (case max_steps_for (task_suite_name cfg) of
             None \<Rightarrow> (Inl (UnboundLocalError ''max_steps''), v2)
           | Some max_steps \<Rightarrow>
               (let (ex, v3) = episode_loop X cfg (task_description task) max_steps v2
                in finish_episode task v3)))"

subsection \<open>The episodes of one task (lines 161 to 392)\<close>

fun run_episodes ::
  "('w, 'o, 'n, 's) externals \<Rightarrow> GenerateConfig \<Rightarrow> 's task \<Rightarrow> nat list
     \<Rightarrow> ('w, 'o, 'n, 's) vars \<Rightarrow> (py_error + unit) \<times> ('w, 'o, 'n, 's) vars" where
  "run_episodes X cfg task [] v = (Inr (), v)"
| "run_episodes X cfg task (episode_idx # rest) v =
     (case run_episode X cfg task episode_idx v of
        (Inl e, v') \<Rightarrow> (Inl e, v')
      | (Inr _, v') \<Rightarrow> run_episodes X cfg task rest v')"

text \<open>Line 163 overwrites the loop variable: every pass evaluates task 0.\<close>

definition run_task ::
  "('w, 'o, 'n, 's) externals \<Rightarrow> GenerateConfig \<Rightarrow> 's task list \<Rightarrow> nat
     \<Rightarrow> ('w, 'o, 'n, 's) vars \<Rightarrow> (py_error + unit) \<times> ('w, 'o, 'n, 's) vars" where
  "run_task X cfg task_suite task_id v =
     (let task_id = 0 in
      if \<not> task_id < length task_suite then (Inl IndexError, v)
      else
        (let task = task_suite ! task_id;
             v1 = snap True
                    (v\<lparr> world := get_libero_env X (world v) task,
                        events := events v @ [MakeEnv task_id],
                        task_episodes := 0, task_successes := 0, total_steps := 0 \<rparr>)
         in case run_episodes X cfg task [0 ..< nat (num_trials_per_task cfg)] v1 of
              (Inl e, v2) \<Rightarrow> (Inl e, v2)
            | (Inr _, v2) \<Rightarrow>
                if task_episodes v2 = 0 then (Inl ZeroDivisionError, v2) else (Inr (), v2)))"

fun run_tasks ::
  "('w, 'o, 'n, 's) externals \<Rightarrow> GenerateConfig \<Rightarrow> 's task list \<Rightarrow> nat list
     \<Rightarrow> ('w, 'o, 'n, 's) vars \<Rightarrow> (py_error + unit) \<times> ('w, 'o, 'n, 's) vars" where
  "run_tasks X cfg task_suite [] v = (Inr (), v)"
| "run_tasks X cfg task_suite (task_id # rest) v =
     (case run_task X cfg task_suite task_id v of
        (Inl e, v') \<Rightarrow> (Inl e, v')
      | (Inr _, v') \<Rightarrow> run_tasks X cfg task_suite rest v')"

subsection \<open>The whole run (lines 102 to 405)\<close>

definition eval_libero ::
  "('w, 'o, 'n, 's) externals \<Rightarrow> GenerateConfig \<Rightarrow> 'w \<Rightarrow> files
     \<Rightarrow> (py_error + unit) \<times> ('w, 'o, 'n, 's) vars" where
  "eval_libero X cfg w fs =
     (let v0 = init_vars w fs in
      case check_config cfg of
        Inl e \<Rightarrow> (Inl e, v0)
      | Inr _ \<Rightarrow>
          (case unnorm_key (norm_stats X) cfg of
             Inl e \<Rightarrow> (Inl e, v0)
           | Inr _ \<Rightarrow>
               (case benchmark_dict X (task_suite_name cfg) of
                  None \<Rightarrow> (Inl (KeyError (task_suite_name cfg)), v0)
                | Some task_suite \<Rightarrow>
                    (case run_tasks X cfg task_suite [0 ..< length task_suite] v0 of
                       (Inl e, v) \<Rightarrow> (Inl e, v)
                     | (Inr _, v) \<Rightarrow>
                         if use_wandb cfg \<and> total_episodes v = 0
                         then (Inl ZeroDivisionError, v) else (Inr (), v)))))"

subsection \<open>A small concrete simulator and policy\<close>

text \<open>
  The world is the number of \<^verbatim>\<open>env.step\<close> calls made so far; \<open>behaviour\<close> says what the
  call with that number does: raise, or return with the given completion flag. Actions are
  integer vectors; the gripper is the last component.
\<close>

definition map_last :: "('a \<Rightarrow> 'a) \<Rightarrow> 'a list \<Rightarrow> string + 'a list" where
  "map_last f xs = (if xs = [] then Inl ''IndexError'' else Inr (butlast xs @ [f (last xs)]))"

definition demo_suite :: "nat task list" where
  "demo_suite =
     [\<lparr> task_description = ''pick'', initial_states = [10, 11, 12] \<rparr>,
      \<lparr> task_description = ''place'', initial_states = [20, 21, 22] \<rparr>]"

definition demo_numpy :: "int numpy" where
  "demo_numpy =
     \<lparr> np_norm = (\<lambda>xs. sum_list (map abs xs)),
       np_dot = (\<lambda>xs ys. if length xs = length ys
                           then Inr (sum_list (map2 (*) xs ys)) else Inl ''ValueError''),
       f_mul = (*), f_add = (+), f_div = (div), f_min = min, f_eps = 0, f_one = 1 \<rparr>"

definition demo_externals :: "(nat \<Rightarrow> string + bool) \<Rightarrow> (nat, nat, int, nat) externals" where
  "demo_externals behaviour =
     \<lparr> norm_stats = [''libero_spatial'', ''libero_100''],
       benchmark_dict = (\<lambda>name. if name = ''libero_spatial'' \<or> name = ''libero_100''
                                   then Some demo_suite else None),
       get_libero_env = (\<lambda>w task. w),
       env_reset = (\<lambda>w. w),
       env_set_init_state = (\<lambda>w s. (w, s)),
       env_step = (\<lambda>w a. (Suc w, case behaviour w of Inl e \<Rightarrow> Inl e
                                                       | Inr d \<Rightarrow> Inr (Suc w, d))),
       get_libero_dummy_action = (\<lambda>family. [0, 0, 0, 0, 0, 0, -1]),
       get_action = (\<lambda>w ob description step. (w, Inr [1, 2, 3, 4, 5, 6, 1])),
       normalize_gripper_action =
         (\<lambda>a binarize. map_last (\<lambda>g. if binarize then sgn (2 * g - 1) else 2 * g - 1) a),
       invert_gripper_action = map_last uminus,
       numpy_ops = demo_numpy \<rparr>"

definition demo_cfg :: GenerateConfig where
  "demo_cfg =
     \<lparr> model_family = ''openvla'', pretrained_checkpoint = Some ''ckpt'',
       load_in_8bit = False, load_in_4bit = False, center_crop = True,
       task_suite_name = ''libero_spatial'', num_steps_wait = 2, num_trials_per_task = 2,
       use_wandb = False \<rparr>"

definition demo_run ::
  "(nat \<Rightarrow> string + bool) \<Rightarrow> GenerateConfig \<Rightarrow> (py_error + unit) \<times> (nat, nat, int, nat) vars" where
  "demo_run behaviour cfg = eval_libero (demo_externals behaviour) cfg 0 Map.empty"

definition always_raises :: "nat \<Rightarrow> string + bool" where
  "always_raises w = Inl ''sim crashed''"

definition never_completes :: "nat \<Rightarrow> string + bool" where
  "never_completes w = Inr False"

definition demo_cfg_100 :: GenerateConfig where
  "demo_cfg_100 = demo_cfg\<lparr> task_suite_name := ''libero_100'' \<rparr>"

definition demo_vars :: "(nat, nat, int, nat) vars" where
  "demo_vars = (init_vars 0 Map.empty)\<lparr> obs := Some 7 \<rparr>"

subsection \<open>Reading the event record\<close>

text \<open>The completion flags of the \<^verbatim>\<open>env.step\<close> calls that returned, in order.\<close>

fun completed_steps :: "('n, 's) event list \<Rightarrow> bool list" where
  "completed_steps [] = []"
| "completed_steps (EnvStep a (Some d) # es) = d # completed_steps es"
| "completed_steps (e # es) = completed_steps es"

text \<open>The number of \<^verbatim>\<open>env.step\<close> calls, returned or not.\<close>

fun env_steps :: "('n, 's) event list \<Rightarrow> nat" where
  "env_steps [] = 0"
| "env_steps (EnvStep a r # es) = Suc (env_steps es)"
| "env_steps (e # es) = env_steps es"

text \<open>The environments created and the initial states set, in order.\<close>

fun schedule :: "('n, 's) event list \<Rightarrow> ('n, 's) event list" where
  "schedule [] = []"
| "schedule (MakeEnv i # es) = MakeEnv i # schedule es"
| "schedule (SetInitState s # es) = SetInitState s # schedule es"
| "schedule (e # es) = schedule es"

text \<open>The videos saved, with their success flags.\<close>

fun videos :: "('n, 's) event list \<Rightarrow> (int \<times> bool) list" where
  "videos [] = []"
| "videos (Video n d # es) = (n, d) # videos es"
| "videos (e # es) = videos es"

text \<open>The leaf counters of a task's result file, if the file and both keys exist.\<close>

definition leaf_of :: "files \<Rightarrow> string \<Rightarrow> leaf option" where
  "leaf_of fs description =
     (case fs (result_file_path description) of
        None \<Rightarrow> None
      | Some data \<Rightarrow> (case data ''[]'' of None \<Rightarrow> None | Some inner \<Rightarrow> inner ''0''))"

text \<open>What one pass through the loop body does to the event record and to \<open>done\<close>.\<close>

definition body_effect ::
  "('w, 'o, 'n, 's) vars \<Rightarrow> ('n, 's) event list \<Rightarrow> ('w, 'o, 'n, 's) vars \<Rightarrow> bool" where
  "body_effect v es v' \<longleftrightarrow>
     events v' = events v @ es
   \<and> schedule es = [] \<and> videos es = []
   \<and> done_flag v' = (if completed_steps es = [] then done_flag v
                      else Some (last (completed_steps es)))
   \<and> history v' = history v \<and> json_files v' = json_files v
   \<and> task_episodes v' = task_episodes v \<and> total_episodes v' = total_episodes v
   \<and> motion v' = motion v"

definition leaf_or_zero :: "files \<Rightarrow> string \<Rightarrow> leaf" where
  "leaf_or_zero fs description =
     (case leaf_of fs description of
        None \<Rightarrow> \<lparr> total_times = 0, success_times = 0 \<rparr>
      | Some l \<Rightarrow> l)"

text \<open>Behaviours of the concrete simulator used below.\<close>

definition completes_from_third :: "nat \<Rightarrow> string + bool" where
  "completes_from_third w = Inr (2 \<le> w)"


subsection \<open>Exact arithmetic\<close>




text \<open>The state in which the first episode of the run below enters its step loop.\<close>

definition demo_loop_entry :: "(nat, nat, int, nat) vars" where
  "demo_loop_entry =
     snd (begin_episode (demo_externals completes_from_third) (demo_suite ! 0) 0
            (snap True
               ((init_vars 0 Map.empty)
                  \<lparr> world := get_libero_env (demo_externals completes_from_third) 0 (demo_suite ! 0),
                    events := [MakeEnv 0], task_episodes := 0, task_successes := 0,
                    total_steps := 0 \<rparr>)))"

subsection \<open>Predicates on the counters\<close>

text \<open>
  A leaf of any result file; \<open>leaf_ok\<close> is the bound \<open>0 \<le> successes \<le> episodes\<close> on it.
  A snapshot is taken when the run starts, when a task pass resets its tally (then
  \<open>task_start\<close> holds), and twice at the end of an episode: after the tallies are
  incremented and after the result file is written. \<open>advances s s'\<close> says that no counter
  decreases from \<open>s\<close> to \<open>s'\<close>, the task tally being compared within one task pass.
\<close>

definition leaf_at :: "files \<Rightarrow> string \<Rightarrow> string \<Rightarrow> string \<Rightarrow> leaf option" where
  "leaf_at fs path k1 k2 =
     (case fs path of
        None \<Rightarrow> None
      | Some data \<Rightarrow> (case data k1 of None \<Rightarrow> None | Some inner \<Rightarrow> inner k2))"

definition leaf_ok :: "leaf \<Rightarrow> bool" where
  "leaf_ok l \<longleftrightarrow> 0 \<le> success_times l \<and> success_times l \<le> total_times l"

definition files_ok :: "files \<Rightarrow> bool" where
  "files_ok fs \<longleftrightarrow> (\<forall>path k1 k2 l. leaf_at fs path k1 k2 = Some l \<longrightarrow> leaf_ok l)"

definition files_le :: "files \<Rightarrow> files \<Rightarrow> bool" where
  "files_le fs fs' \<longleftrightarrow>
     (\<forall>path k1 k2 l. leaf_at fs path k1 k2 = Some l \<longrightarrow>
        (\<exists>l'. leaf_at fs' path k1 k2 = Some l'
              \<and> total_times l \<le> total_times l' \<and> success_times l \<le> success_times l'))"

definition snapshot_ok :: "snapshot \<Rightarrow> bool" where
  "snapshot_ok s \<longleftrightarrow>
     0 \<le> s_task_successes s \<and> s_task_successes s \<le> s_task_episodes s
   \<and> 0 \<le> s_total_successes s \<and> s_total_successes s \<le> s_total_episodes s
   \<and> files_ok (s_files s)"

definition advances :: "snapshot \<Rightarrow> snapshot \<Rightarrow> bool" where
  "advances s s' \<longleftrightarrow>
     s_total_episodes s \<le> s_total_episodes s'
   \<and> s_total_successes s \<le> s_total_successes s'
   \<and> files_le (s_files s) (s_files s')
   \<and> (\<not> task_start s' \<longrightarrow>
        s_task_episodes s \<le> s_task_episodes s' \<and> s_task_successes s \<le> s_task_successes s')"

definition tallies_inv :: "('w, 'o, 'n, 's) vars \<Rightarrow> int \<Rightarrow> bool" where
  "tallies_inv v k \<longleftrightarrow>
     history v \<noteq> []
   \<and> list_all snapshot_ok (history v)
   \<and> successively advances (history v)
   \<and> s_task_episodes (last (history v)) = task_episodes v
   \<and> s_total_episodes (last (history v)) = total_episodes v
   \<and> s_files (last (history v)) = json_files v
   \<and> task_successes v = s_task_successes (last (history v)) + k
   \<and> total_successes v = s_total_successes (last (history v)) + k"

text \<open>The environments and initial states of one task pass, as line 163 lets them be.\<close>

definition task_schedule :: "GenerateConfig \<Rightarrow> 's task \<Rightarrow> ('n, 's) event list" where
  "task_schedule cfg task =
     MakeEnv 0 # map (\<lambda>i. SetInitState (initial_states task ! i))
                     [0 ..< nat (num_trials_per_task cfg)]"

section \<open>The motion-trace converter (experiments/logs/convert2csv.py)\<close>

text \<open>
  Text is a list of characters with code points below 256. \<^verbatim>\<open>str.strip\<close> and
  \<^verbatim>\<open>str.split()\<close> treat the following characters as whitespace. The built-in
  \<^verbatim>\<open>float\<close> is a parameter: \<open>None\<close> stands for \<^verbatim>\<open>ValueError\<close>.
\<close>

definition is_space :: "char \<Rightarrow> bool" where
  "is_space c =
     (c \<in> set [CHR 0x09, CHR 0x0A, CHR 0x0B, CHR 0x0C, CHR 0x0D, CHR 0x1C, CHR 0x1D,
                CHR 0x1E, CHR 0x1F, CHR 0x20, CHR 0x85, CHR 0xA0])"

definition strip :: "string \<Rightarrow> string" where
  "strip s = rev (dropWhile is_space (rev (dropWhile is_space s)))"

fun split_on :: "char \<Rightarrow> string \<Rightarrow> string list" where
  "split_on sep [] = [[]]"
| "split_on sep (c # cs) =
     (if c = sep then [] # split_on sep cs
      else (case split_on sep cs of
              [] \<Rightarrow> [[c]]
            | w # ws \<Rightarrow> (c # w) # ws))"

text \<open>Python's \<^verbatim>\<open>sep.join\<close>, the inverse of \<^verbatim>\<open>str.split(sep)\<close>.\<close>

fun join :: "char \<Rightarrow> string list \<Rightarrow> string" where
  "join sep [] = []"
| "join sep [w] = w"
| "join sep (w # v # ws) = w @ sep # join sep (v # ws)"

fun split_ws :: "string \<Rightarrow> string list" where
  "split_ws [] = []"
| "split_ws (c # cs) =
     (if is_space c then split_ws cs
      else (case cs of
              [] \<Rightarrow> [[c]]
            | c' # _ \<Rightarrow>
                if is_space c' then [c] # split_ws cs
                else (case split_ws cs of
                        [] \<Rightarrow> [[c]]
                      | w # ws \<Rightarrow> (c # w) # ws)))"

datatype 'f csv_row = Floats "'f list" | Strings "string list"

datatype warning = NotFloat nat string | WrongFieldCount nat string

definition header :: "string list" where
  "header = [''xyz_magnitude'', ''xyz_cosine_similarity'', ''rot_magnitude'',
             ''rot_cosine_similarity'']"

text \<open>Lines 28 to 35: \<open>None\<close> for a line that is empty once stripped, which the loop
  skips before it splits anything.\<close>

definition fields :: "string \<Rightarrow> string list option" where
  "fields line =
     (let line = strip line in
      if line = [] then None
      else
        (let values = map strip (split_on CHR '','' line) in
         if length values \<noteq> 4 then Some (map strip (split_ws line)) else Some values))"

text \<open>Lines 28 to 47: the row written for one line, if any, and the warning printed, if any.\<close>

definition convert_line ::
  "(string \<Rightarrow> 'f option) \<Rightarrow> nat \<Rightarrow> string \<Rightarrow> 'f csv_row option \<times> warning option" where
  "convert_line float line_number line =
     (case fields line of
        None \<Rightarrow> (None, None)
      | Some values \<Rightarrow>
          if length values = 4 then
            (case those (map float values) of
               Some float_values \<Rightarrow> (Some (Floats float_values), None)
             | None \<Rightarrow> (Some (Strings values), Some (NotFloat line_number (strip line))))
          else (None, Some (WrongFieldCount line_number (strip line))))"

fun convert_lines ::
  "(string \<Rightarrow> 'f option) \<Rightarrow> nat \<Rightarrow> string list \<Rightarrow> 'f csv_row list \<times> warning list" where
  "convert_lines float line_number [] = ([], [])"
| "convert_lines float line_number (line # rest) =
     (let (row, warn) = convert_line float line_number line;
          (rows, warns) = convert_lines float (Suc line_number) rest
      in (case row of None \<Rightarrow> rows | Some r \<Rightarrow> r # rows,
          case warn of None \<Rightarrow> warns | Some w \<Rightarrow> w # warns))"

definition convert_to_csv ::
  "(string \<Rightarrow> 'f option) \<Rightarrow> string list option \<Rightarrow> ('f csv_row list \<times> warning list) option" where
  "convert_to_csv float input_file =
     (case input_file of
        None \<Rightarrow> None
      | Some lines \<Rightarrow>
          (let (rows, warns) = convert_lines float 1 lines in Some (Strings header # rows, warns)))"

subsection \<open>Plain decimal literals\<close>

text \<open>
  The value that \<^verbatim>\<open>float\<close> gives to a plain decimal literal (an optional sign, digits,
  an optional point and more digits), as the rational number it denotes.
\<close>

definition is_digit :: "char \<Rightarrow> bool" where
  "is_digit c = (48 \<le> (of_char c :: nat) \<and> (of_char c :: nat) \<le> 57)"

definition digits_value :: "string \<Rightarrow> nat" where
  "digits_value ds = foldl (\<lambda>n c. 10 * n + (of_char c - 48)) 0 ds"

definition unsigned_literal :: "string \<Rightarrow> rat option" where
  "unsigned_literal s =
     (let ip = takeWhile is_digit s; rest = dropWhile is_digit s in
      case rest of
        [] \<Rightarrow> if ip = [] then None else Some (of_nat (digits_value ip))
      | c # fp \<Rightarrow>
          if c = CHR ''.'' \<and> list_all is_digit fp \<and> \<not> (ip = [] \<and> fp = [])
          then Some (of_nat (digits_value ip) + of_nat (digits_value fp) / 10 ^ length fp)
          else None)"

definition decimal_literal :: "string \<Rightarrow> rat option" where
  "decimal_literal s =
     (case s of
        [] \<Rightarrow> None
      | c # r \<Rightarrow>
          if c = CHR ''-'' then map_option uminus (unsigned_literal r)
          else if c = CHR ''+'' then unsigned_literal r
          else unsigned_literal s)"

section \<open>Verified properties\<close>

subsection \<open>Auxiliary facts about the step loop\<close>

lemma loop_body_continues:
  "loop_body X cfg description v = (None, v') \<Longrightarrow> t v' = t v + 1"
  by (auto simp: loop_body_def settle_step_def acting_step_def caught_def post_process_def Let_def
      split: prod.splits sum.splits option.splits if_splits)

lemma completed_steps_append:
  "completed_steps (es @ es') = completed_steps es @ completed_steps es'"
  by (induction es rule: completed_steps.induct) auto

lemma env_steps_append: "env_steps (es @ es') = env_steps es + env_steps es'"
  by (induction es rule: env_steps.induct) auto

lemma schedule_append: "schedule (es @ es') = schedule es @ schedule es'"
  by (induction es rule: schedule.induct) auto

lemma videos_append: "videos (es @ es') = videos es @ videos es'"
  by (induction es rule: videos.induct) auto

lemma settle_step_effect:
  assumes "settle_step X cfg v = (r, v')"
  shows "\<exists>es. body_effect v es v' \<and> env_steps es = 1
           \<and> task_successes v' = task_successes v \<and> total_successes v' = total_successes v
           \<and> r \<noteq> Some Completed \<and> r \<noteq> Some Exhausted
           \<and> (\<forall>e. r = Some (Failed e) \<longrightarrow> Caught e \<in> set es)"
  using assms
  by (auto simp: settle_step_def caught_def body_effect_def Let_def
      split: prod.splits sum.splits)

lemma acting_step_effect:
  assumes "acting_step X cfg description v = (r, v')"
  shows "\<exists>es. body_effect v es v' \<and> env_steps es \<le> 1
           \<and> task_successes v' = task_successes v + (if r = Some Completed then 1 else 0)
           \<and> total_successes v' = total_successes v + (if r = Some Completed then 1 else 0)
           \<and> (r = Some Completed \<longrightarrow> done_flag v' = Some True)
           \<and> r \<noteq> Some Exhausted
           \<and> (\<forall>e. r = Some (Failed e) \<longrightarrow> Caught e \<in> set es)"
  using assms
  by (auto simp: acting_step_def caught_def body_effect_def Let_def
      split: option.splits prod.splits sum.splits if_splits)

lemma loop_body_effect:
  assumes "loop_body X cfg description v = (r, v')"
  shows "\<exists>es. body_effect v es v' \<and> env_steps es \<le> 1
           \<and> task_successes v' = task_successes v + (if r = Some Completed then 1 else 0)
           \<and> total_successes v' = total_successes v + (if r = Some Completed then 1 else 0)
           \<and> (r = Some Completed \<longrightarrow> done_flag v' = Some True)
           \<and> r \<noteq> Some Exhausted
           \<and> (\<forall>e. r = Some (Failed e) \<longrightarrow> Caught e \<in> set es)"
proof (cases "t v < num_steps_wait cfg")
  case True
  with assms have "settle_step X cfg v = (r, v')" by (simp add: loop_body_def)
  from settle_step_effect [OF this] show ?thesis by auto
next
  case False
  with assms have "acting_step X cfg description v = (r, v')" by (simp add: loop_body_def)
  from acting_step_effect [OF this] show ?thesis by blast
qed

lemma body_effect_trans:
  assumes "body_effect v es v'" and "body_effect v' es' v''"
  shows "body_effect v (es @ es') v''"
  using assms
  by (auto simp: body_effect_def schedule_append videos_append completed_steps_append)

lemma body_effect_refl: "body_effect v [] v"
  by (simp add: body_effect_def)


lemma episode_loop_effect:
  "episode_loop X cfg description max_steps v = (ex, v') \<Longrightarrow>
     \<exists>es. body_effect v es v'
        \<and> int (env_steps es) \<le> max 0 (max_steps + num_steps_wait cfg - t v)
        \<and> task_successes v' = task_successes v + (if ex = Completed then 1 else 0)
        \<and> total_successes v' = total_successes v + (if ex = Completed then 1 else 0)
        \<and> (ex = Completed \<longrightarrow> done_flag v' = Some True)
        \<and> (ex = Exhausted \<longrightarrow> t v' = max (t v) (max_steps + num_steps_wait cfg))
        \<and> (\<forall>e. ex = Failed e \<longrightarrow> Caught e \<in> set es)"
proof (induction X cfg description max_steps v arbitrary: ex v' rule: episode_loop.induct)
  case (1 X cfg description max_steps v)
  show ?case
  proof (cases "t v < max_steps + num_steps_wait cfg")
    case False
    with "1.prems" have "ex = Exhausted" "v' = v"
      by (simp_all add: episode_loop.simps [of X cfg description max_steps v])
    with False body_effect_refl [of v] show ?thesis
      by (intro exI [of _ "[]"]) auto
  next
    case True
    obtain r v1 where b: "loop_body X cfg description v = (r, v1)"
      by (cases "loop_body X cfg description v")
    from loop_body_effect [OF b] obtain es1 where e1:
      "body_effect v es1 v1" "env_steps es1 \<le> 1"
      "task_successes v1 = task_successes v + (if r = Some Completed then 1 else 0)"
      "total_successes v1 = total_successes v + (if r = Some Completed then 1 else 0)"
      "r = Some Completed \<longrightarrow> done_flag v1 = Some True"
      "r \<noteq> Some Exhausted"
      "\<forall>e. r = Some (Failed e) \<longrightarrow> Caught e \<in> set es1"
      by blast
    show ?thesis
    proof (cases r)
      case None
      with b True "1.prems" have run: "episode_loop X cfg description max_steps v1 = (ex, v')"
        by (simp add: episode_loop.simps [of X cfg description max_steps v])
      from None b have tv: "t v1 = t v + 1"
        by (simp add: loop_body_continues)
      from "1.IH" [OF True b [symmetric] None run] obtain es2 where e2:
        "body_effect v1 es2 v'"
        "int (env_steps es2) \<le> max 0 (max_steps + num_steps_wait cfg - t v1)"
        "task_successes v' = task_successes v1 + (if ex = Completed then 1 else 0)"
        "total_successes v' = total_successes v1 + (if ex = Completed then 1 else 0)"
        "ex = Completed \<longrightarrow> done_flag v' = Some True"
        "ex = Exhausted \<longrightarrow> t v' = max (t v1) (max_steps + num_steps_wait cfg)"
        "\<forall>e. ex = Failed e \<longrightarrow> Caught e \<in> set es2"
        by blast
      have "body_effect v (es1 @ es2) v'"
        using e1(1) e2(1) by (rule body_effect_trans)
      moreover have "int (env_steps (es1 @ es2)) \<le> max 0 (max_steps + num_steps_wait cfg - t v)"
        using e1(2) e2(2) tv True by (simp add: env_steps_append)
      moreover have "ex = Exhausted \<longrightarrow> t v' = max (t v) (max_steps + num_steps_wait cfg)"
        using e2(6) tv True by auto
      ultimately show ?thesis
        using e1(3,4) e2(3,4,5,7) None by (intro exI [of _ "es1 @ es2"]) auto
    next
      case (Some ex0)
      with b True "1.prems" have "ex = ex0" "v' = v1"
        by (simp_all add: episode_loop.simps [of X cfg description max_steps v])
      with e1 Some True show ?thesis
        by (intro exI [of _ es1]) auto
    qed
  qed
qed

lemma begin_episode_effect:
  assumes "begin_episode X task episode_idx v = (r, v2)"
  shows "\<exists>es. events v2 = events v @ es
           \<and> completed_steps es = [] \<and> env_steps es = 0 \<and> videos es = []
           \<and> schedule es = (if r = Inr () then [SetInitState (initial_states task ! episode_idx)]
                             else [])
           \<and> (r = Inr () \<longrightarrow> episode_idx < length (initial_states task) \<and> t v2 = 0)
           \<and> done_flag v2 = done_flag v \<and> history v2 = history v
           \<and> json_files v2 = json_files v
           \<and> task_episodes v2 = task_episodes v \<and> total_episodes v2 = total_episodes v
           \<and> task_successes v2 = task_successes v \<and> total_successes v2 = total_successes v"
  using assms
  by (auto simp: begin_episode_def Let_def split: if_splits prod.splits)


lemma new_events: "events v' = events v @ es \<Longrightarrow> drop (length (events v)) (events v') = es"
  by simp


subsection \<open>Exceptions raised while stepping\<close>

text \<open>
  Claim C1 says that an exception raised while stepping is caught and logged, that the
  episode ends at once and counts as a failure (episode tally incremented, success tally
  not), and that the run goes on with the next episode. The handler at lines 331 to 334
  does catch the exception, but line 355 then reads \<^verbatim>\<open>done\<close>, which is bound only by a
  completed \<^verbatim>\<open>env.step\<close>. When the very first \<^verbatim>\<open>env.step\<close> of a run raises, the variable
  is unbound and the read, which is outside the \<^verbatim>\<open>try\<close>, aborts the run: the exception is
  caught, the episode tally is incremented to 1, and no second episode starts.
\<close>

theorem first_step_exception_aborts_run:
  "fst (demo_run always_raises demo_cfg) = Inl (UnboundLocalError ''done'')
   \<and> events (snd (demo_run always_raises demo_cfg))
       = [MakeEnv 0, Reset, SetInitState 10, EnvStep [0, 0, 0, 0, 0, 0, - 1] None,
          Caught ''sim crashed'']
   \<and> task_episodes (snd (demo_run always_raises demo_cfg)) = 1
   \<and> task_successes (snd (demo_run always_raises demo_cfg)) = 0"
  by code_simp

text \<open>
  Once some \<^verbatim>\<open>env.step\<close> has returned (in this episode or in an earlier one), \<^verbatim>\<open>done\<close>
  is bound and the exception is contained: the episode is finished without error, the
  episode tally is incremented, the success tally is not, and the message is logged.
\<close>

lemma caught_exception_is_contained:
  assumes "begin_episode X task episode_idx v = (Inr (), v2)"
    and "max_steps_for (task_suite_name cfg) = Some max_steps"
    and "episode_loop X cfg (task_description task) max_steps v2 = (Failed e, v3)"
    and "done_flag v3 = Some d"
  shows "fst (run_episode X cfg task episode_idx v) = Inr ()
       \<and> task_episodes (snd (run_episode X cfg task episode_idx v)) = task_episodes v + 1
       \<and> task_successes (snd (run_episode X cfg task episode_idx v)) = task_successes v
       \<and> Caught e \<in> set (events (snd (run_episode X cfg task episode_idx v)))"
proof -
  from begin_episode_effect [OF assms(1)] have b:
    "task_episodes v2 = task_episodes v" "task_successes v2 = task_successes v"
    by auto
  from episode_loop_effect [OF assms(3)] obtain es where l:
    "body_effect v2 es v3" "task_successes v3 = task_successes v2" "Caught e \<in> set es"
    by auto
  from l(1) have k: "events v3 = events v2 @ es" "task_episodes v3 = task_episodes v2"
    by (simp_all add: body_effect_def)
  define v4 where "v4 = snd (finish_episode task v3)"
  have f: "finish_episode task v3 = (Inr (), v4)"
    and "task_episodes v4 = task_episodes v3 + 1"
    and "task_successes v4 = task_successes v3"
    and "set (events v3) \<subseteq> set (events v4)"
    using assms(4) by (auto simp: v4_def finish_episode_def snap_def Let_def)
  moreover have "run_episode X cfg task episode_idx v = finish_episode task v3"
    using assms(1,2,3) by (simp add: run_episode_def)
  ultimately show ?thesis
    using b k l(2,3) by auto
qed

subsection \<open>A suite name without a step ceiling\<close>

text \<open>
  Claim C3, as amended: the script does not validate the suite name. When the name has no
  entry in the chain of lines 197 to 206 (and the set-up succeeds, the suite has a task,
  at least one trial is asked for and task 0 has an initial state), the run aborts with an
  unbound-local error for \<^verbatim>\<open>max_steps\<close> inside the first episode: the environment has been
  created, reset and put in its first initial state, no \<^verbatim>\<open>env.step\<close> has been executed
  and no tally has been incremented.
\<close>

theorem unmapped_suite_aborts_in_first_episode:
  assumes "check_config cfg = Inr ()"
    and "unnorm_key (norm_stats X) cfg = Inr k"
    and "benchmark_dict X (task_suite_name cfg) = Some task_suite"
    and "task_suite \<noteq> []"
    and "0 < num_trials_per_task cfg"
    and "initial_states (hd task_suite) \<noteq> []"
    and "max_steps_for (task_suite_name cfg) = None"
  shows "fst (eval_libero X cfg w fs) = Inl (UnboundLocalError ''max_steps'')
     \<and> events (snd (eval_libero X cfg w fs))
         = [MakeEnv 0, Reset, SetInitState (hd (initial_states (hd task_suite)))]
     \<and> total_episodes (snd (eval_libero X cfg w fs)) = 0
     \<and> task_episodes (snd (eval_libero X cfg w fs)) = 0"
proof -
  obtain task rest where ts: "task_suite = task # rest"
    using assms(4) by (cases task_suite) auto
  obtain s0 ss where ini: "initial_states task = s0 # ss"
    using assms(6) ts by (cases "initial_states task") auto
  obtain ids where n: "[0 ..< nat (num_trials_per_task cfg)] = 0 # ids"
    using assms(5) upt_conv_Cons [of 0 "nat (num_trials_per_task cfg)"] by simp
  obtain tids where l: "[0 ..< length task_suite] = 0 # tids"
    using ts upt_conv_Cons [of 0 "length task_suite"] by simp
  define v0 :: "('a, 'b, 'c, 'd) vars" where "v0 = init_vars w fs"
  obtain r v where rt: "run_task X cfg task_suite 0 v0 = (r, v)"
    by (cases "run_task X cfg task_suite 0 v0")
  have "r = Inl (UnboundLocalError ''max_steps'')
      \<and> events v = [MakeEnv 0, Reset, SetInitState s0]
      \<and> total_episodes v = 0 \<and> task_episodes v = 0"
    using rt assms(7) unfolding run_task_def n
    by (auto simp: run_episode_def begin_episode_def ts ini Let_def snap_def v0_def
        init_vars_def split: prod.splits)
  moreover have "eval_libero X cfg w fs = (r, v)"
    if "r = Inl (UnboundLocalError ''max_steps'')"
    using assms(1,2,3) rt that by (simp add: eval_libero_def l v0_def Let_def)
  ultimately show ?thesis by (simp add: ts ini)
qed

theorem unmapped_suite_witness:
  "check_config demo_cfg_100 = Inr ()
   \<and> unnorm_key (norm_stats (demo_externals never_completes)) demo_cfg_100 = Inr ''libero_100''
   \<and> benchmark_dict (demo_externals never_completes) (task_suite_name demo_cfg_100)
       = Some demo_suite
   \<and> demo_suite \<noteq> []
   \<and> 0 < num_trials_per_task demo_cfg_100
   \<and> initial_states (hd demo_suite) \<noteq> []
   \<and> max_steps_for (task_suite_name demo_cfg_100) = None
   \<and> fst (eval_libero (demo_externals never_completes) demo_cfg_100 0 Map.empty)
       = Inl (UnboundLocalError ''max_steps'')
   \<and> events (snd (eval_libero (demo_externals never_completes) demo_cfg_100 (0::nat) Map.empty))
       = [MakeEnv 0, Reset, SetInitState 10]"
proof -
  have h1: "check_config demo_cfg_100 = Inr ()"
    by (simp add: check_config_def demo_cfg_100_def demo_cfg_def)
  have h2: "unnorm_key (norm_stats (demo_externals never_completes)) demo_cfg_100
              = Inr ''libero_100''"
    by (simp add: unnorm_key_def demo_cfg_100_def demo_cfg_def demo_externals_def)
  have h3: "benchmark_dict (demo_externals never_completes) (task_suite_name demo_cfg_100)
              = Some demo_suite"
    by (simp add: demo_cfg_100_def demo_cfg_def demo_externals_def)
  have h4: "demo_suite \<noteq> []"
    by (simp add: demo_suite_def)
  have h5: "0 < num_trials_per_task demo_cfg_100"
    by (simp add: demo_cfg_100_def demo_cfg_def)
  have h6: "initial_states (hd demo_suite) \<noteq> []"
    by (simp add: demo_suite_def)
  have h7: "max_steps_for (task_suite_name demo_cfg_100) = None"
    by (simp add: max_steps_for_def demo_cfg_100_def demo_cfg_def)
  have "hd (initial_states (hd demo_suite)) = 10"
    by (simp add: demo_suite_def)
  with unmapped_suite_aborts_in_first_episode [OF h1 h2 h3 h4 h5 h6 h7, of 0 Map.empty]
  show ?thesis
    using h1 h2 h3 h4 h5 h6 h7 by simp
qed

text \<open>
  Claim C3 as stated fails: with a suite that the benchmark knows but the chain does not
  (\<^verbatim>\<open>libero_100\<close>), nothing fails at run start. The error is an unbound local, raised after
  the first episode has reset the environment and set its initial state.
\<close>

theorem unmapped_suite_counterexample:
  "fst (demo_run never_completes demo_cfg_100) = Inl (UnboundLocalError ''max_steps'')
   \<and> events (snd (demo_run never_completes demo_cfg_100)) = [MakeEnv 0, Reset, SetInitState 10]"
  by code_simp

subsection \<open>The action that reaches the environment\<close>

text \<open>
  Claim C4: \<^verbatim>\<open>replan\<close> is the constant \<^verbatim>\<open>False\<close>, so on every acting step the action
  handed to \<^verbatim>\<open>env.step\<close> is the action that the policy returned for that step, passed
  through \<^verbatim>\<open>normalize_gripper_action\<close> with \<^verbatim>\<open>binarize=True\<close> and then, when the model
  family is \<^verbatim>\<open>openvla\<close>, through \<^verbatim>\<open>invert_gripper_action\<close>; nothing else is applied.
  Both directions are stated. Whenever the step calls \<^verbatim>\<open>env.step\<close>, the argument is that
  post-processed action and the world that results is the one \<^verbatim>\<open>env.step\<close> returns for
  it. Whenever the policy returns an action and the post-processing succeeds, the step
  does call \<^verbatim>\<open>env.step\<close> with the post-processed action, in the world the policy call
  left, and takes its observation, its completion flag and its exit from that call.
\<close>

theorem acting_step_executes_post_processed_action:
  "(acting_step X cfg description v = (r, v')
      \<and> EnvStep a res \<in> set (drop (length (events v)) (events v'))
      \<longrightarrow> (\<exists>ob w1 raw normalized.
             obs v = Some ob
           \<and> get_action X (world v) ob description (t v) = (w1, Inr raw)
           \<and> normalize_gripper_action X raw True = Inr normalized
           \<and> (if model_family cfg = ''openvla'' then invert_gripper_action X normalized = Inr a
              else a = normalized)
           \<and> world v' = fst (env_step X w1 a)
           \<and> res = (case snd (env_step X w1 a) of Inl e \<Rightarrow> None | Inr (ob', d) \<Rightarrow> Some d)))
   \<and> (obs v = Some ob \<and> get_action X (world v) ob description (t v) = (w1, Inr raw)
      \<and> normalize_gripper_action X raw True = Inr normalized
      \<and> (if model_family cfg = ''openvla'' then invert_gripper_action X normalized
          else Inr normalized) = Inr a'
      \<longrightarrow> world (snd (acting_step X cfg description v)) = fst (env_step X w1 a')
        \<and> drop (length (events v)) (events (snd (acting_step X cfg description v)))
            = (case snd (env_step X w1 a') of
                 Inl e \<Rightarrow> [EnvStep a' None, Caught e]
               | Inr (ob', d) \<Rightarrow> [EnvStep a' (Some d)])
        \<and> (case snd (env_step X w1 a') of
              Inl e \<Rightarrow> fst (acting_step X cfg description v) = Some (Failed e)
            | Inr (ob', d) \<Rightarrow>
                obs (snd (acting_step X cfg description v)) = Some ob'
              \<and> done_flag (snd (acting_step X cfg description v)) = Some d
              \<and> fst (acting_step X cfg description v) = (if d then Some Completed else None)))"
  by (auto simp: acting_step_def caught_def post_process_def Let_def
      split: option.splits prod.splits sum.splits if_splits)

theorem acting_step_witness:
  "obs demo_vars = Some 7
   \<and> get_action (demo_externals never_completes) (world demo_vars) 7 ''pick'' (t demo_vars)
       = (0, Inr [1, 2, 3, 4, 5, 6, 1])
   \<and> normalize_gripper_action (demo_externals never_completes) [1, 2, 3, 4, 5, 6, 1] True
       = Inr [1, 2, 3, 4, 5, 6, 1]
   \<and> invert_gripper_action (demo_externals never_completes) [1, 2, 3, 4, 5, 6, 1]
       = Inr [1, 2, 3, 4, 5, 6, - 1]
   \<and> world (snd (acting_step (demo_externals never_completes) demo_cfg ''pick'' demo_vars))
       = fst (env_step (demo_externals never_completes) 0 [1, 2, 3, 4, 5, 6, - 1])
   \<and> drop (length (events demo_vars))
       (events (snd (acting_step (demo_externals never_completes) demo_cfg ''pick'' demo_vars)))
       = [EnvStep [1, 2, 3, 4, 5, 6, - 1] (Some False)]
   \<and> fst (acting_step (demo_externals never_completes) demo_cfg ''pick'' demo_vars) = None
   \<and> (\<exists>ob w1 raw normalized.
         obs demo_vars = Some ob
       \<and> get_action (demo_externals never_completes) (world demo_vars) ob ''pick'' (t demo_vars)
           = (w1, Inr raw)
       \<and> normalize_gripper_action (demo_externals never_completes) raw True = Inr normalized
       \<and> invert_gripper_action (demo_externals never_completes) normalized
           = Inr [1, 2, 3, 4, 5, 6, - 1]
       \<and> world (snd (acting_step (demo_externals never_completes) demo_cfg ''pick'' demo_vars))
           = fst (env_step (demo_externals never_completes) w1 [1, 2, 3, 4, 5, 6, - 1]))"
proof -
  define X where "X = demo_externals never_completes"
  define a :: "int list" where "a = [1, 2, 3, 4, 5, 6, - 1]"
  define r where "r = fst (acting_step X demo_cfg ''pick'' demo_vars)"
  define v' where "v' = snd (acting_step X demo_cfg ''pick'' demo_vars)"
  have h1: "obs demo_vars = Some 7"
    by (simp add: demo_vars_def init_vars_def)
  have h2: "get_action X (world demo_vars) 7 ''pick'' (t demo_vars) = (0, Inr [1, 2, 3, 4, 5, 6, 1])"
    by (simp add: X_def demo_externals_def demo_vars_def init_vars_def)
  have h3: "normalize_gripper_action X [1, 2, 3, 4, 5, 6, 1] True = Inr [1, 2, 3, 4, 5, 6, 1]"
    by (simp add: X_def demo_externals_def map_last_def)
  have h4: "invert_gripper_action X [1, 2, 3, 4, 5, 6, 1] = Inr a"
    by (simp add: X_def demo_externals_def map_last_def a_def)
  have h5: "(if model_family demo_cfg = ''openvla''
             then invert_gripper_action X [1, 2, 3, 4, 5, 6, 1]
             else Inr [1, 2, 3, 4, 5, 6, 1]) = Inr a"
    using h4 by (simp add: demo_cfg_def)
  have h6: "snd (env_step X 0 a) = Inr (1, False)"
    by (simp add: X_def demo_externals_def never_completes_def)
  have o: "model_family demo_cfg = ''openvla''"
    by (simp add: demo_cfg_def)
  note T = acting_step_executes_post_processed_action
    [where X = X and cfg = demo_cfg and description = "''pick''" and v = demo_vars
       and r = r and v' = v' and a = a and res = "Some False" and ob = 7 and ?w1.0 = 0
       and raw = "[1, 2, 3, 4, 5, 6, 1]" and normalized = "[1, 2, 3, 4, 5, 6, 1]" and a' = a]
  from T h1 h2 h3 h5 h6 have fwd:
    "world v' = fst (env_step X 0 a)"
    "drop (length (events demo_vars)) (events v') = [EnvStep a (Some False)]"
    "r = None"
    unfolding r_def v'_def by simp_all
  have st: "acting_step X demo_cfg ''pick'' demo_vars = (r, v')"
    by (simp add: r_def v'_def)
  have mem: "EnvStep a (Some False) \<in> set (drop (length (events demo_vars)) (events v'))"
    using fwd(2) by simp
  from T st mem o have "\<exists>ob w1 raw normalized.
         obs demo_vars = Some ob
       \<and> get_action X (world demo_vars) ob ''pick'' (t demo_vars) = (w1, Inr raw)
       \<and> normalize_gripper_action X raw True = Inr normalized
       \<and> invert_gripper_action X normalized = Inr a
       \<and> world v' = fst (env_step X w1 a)"
    by auto
  with h1 h2 h3 h4 fwd show ?thesis
    unfolding X_def a_def r_def v'_def by blast
qed

subsection \<open>The previous-action state\<close>



subsection \<open>The similarity value\<close>

















subsection \<open>Converting one line of the motion trace\<close>

lemma those_map_None: "those (map f xs) = None \<longleftrightarrow> (\<exists>x \<in> set xs. f x = None)"
  by (induction xs) (auto split: option.splits)

lemma split_on_nonempty: "split_on sep s \<noteq> []"
  by (induction s) (auto split: list.splits)

lemma split_on_join: "join sep (split_on sep s) = s"
proof (induction s)
  case Nil
  show ?case by simp
next
  case (Cons c cs)
  obtain w ws where sp: "split_on sep cs = w # ws"
    using split_on_nonempty [of sep cs] by (cases "split_on sep cs") auto
  with Cons show ?case by (cases ws) auto
qed

lemma split_on_no_sep: "w \<in> set (split_on sep s) \<Longrightarrow> sep \<notin> set w"
  by (induction s arbitrary: w) (auto split: if_splits list.splits)

lemma split_ws_unfold:
  "split_ws s =
     (case dropWhile is_space s of
        [] \<Rightarrow> []
      | c # cs \<Rightarrow> takeWhile (\<lambda>x. \<not> is_space x) (c # cs)
                  # split_ws (dropWhile (\<lambda>x. \<not> is_space x) (c # cs)))"
proof (induction s rule: split_ws.induct)
  case 1
  show ?case by simp
next
  case (2 c cs)
  show ?case
  proof (cases "is_space c")
    case True
    with 2 show ?thesis by simp
  next
    case False
    note nc = this
    show ?thesis
    proof (cases cs)
      case Nil
      with nc show ?thesis by simp
    next
      case (Cons c' cs')
      show ?thesis
      proof (cases "is_space c'")
        case True
        with nc Cons show ?thesis by simp
      next
        case False
        with nc Cons 2(3) have "split_ws cs
            = takeWhile (\<lambda>x. \<not> is_space x) cs # split_ws (dropWhile (\<lambda>x. \<not> is_space x) cs)"
          by simp
        with nc Cons False show ?thesis by simp
      qed
    qed
  qed
qed

text \<open>
  Claim C9, as amended. Whatever \<^verbatim>\<open>float\<close> is, the line
  \<^verbatim>\<open>0.1234, 0.9800, 0.0500, -0.2000\<close> followed by a newline gives the row of the four
  numbers that \<^verbatim>\<open>float\<close> reads from its four fields, and so does the same line with
  whitespace in place of the commas; the line with only the first three fields gives no
  row and a warning. For every line that is not empty once stripped, the fields are those
  of the comma split when there are 4 of them, else those of the whitespace split, each
  stripped: a field count other than 4 gives no row and a warning; 4 fields of which one is
  not a number give the row of the four field strings and a warning; 4 numbers give the
  row of numbers and no warning. A line that is empty once stripped gives no row and no
  warning. The comma split is the inverse of joining with commas and leaves no comma in a
  field; the whitespace split skips leading whitespace, takes the characters up to the next
  whitespace as a field, and goes on with the rest.
\<close>

theorem convert_line_cases:
  "(float ''0.1234'' = Some a \<and> float ''0.9800'' = Some b \<and> float ''0.0500'' = Some c
      \<and> float ''-0.2000'' = Some d
      \<longrightarrow> convert_line float n ''0.1234, 0.9800, 0.0500, -0.2000\<newline>''
            = (Some (Floats [a, b, c, d]), None)
        \<and> convert_line float n ''0.1234 0.9800  0.0500 -0.2000\<newline>''
            = (Some (Floats [a, b, c, d]), None))
   \<and> convert_line float n ''0.1234, 0.9800, 0.0500\<newline>''
       = (None, Some (WrongFieldCount n ''0.1234, 0.9800, 0.0500''))
   \<and> (strip line \<noteq> []
        \<and> cv = map strip (split_on CHR '','' (strip line))
        \<and> wv = map strip (split_ws (strip line))
        \<and> vals = (if length cv = 4 then cv else wv)
      \<longrightarrow> (length vals \<noteq> 4
            \<longrightarrow> convert_line float n line = (None, Some (WrongFieldCount n (strip line))))
        \<and> (length vals = 4 \<and> (\<exists>v \<in> set vals. float v = None)
            \<longrightarrow> convert_line float n line
                  = (Some (Strings vals), Some (NotFloat n (strip line))))
        \<and> (length vals = 4 \<and> those (map float vals) = Some nums
            \<longrightarrow> convert_line float n line = (Some (Floats nums), None)))
   \<and> (strip line' = [] \<longrightarrow> convert_line float n line' = (None, None))
   \<and> join CHR '','' (split_on CHR '','' s) = s
   \<and> (\<forall>w \<in> set (split_on CHR '','' s). CHR '','' \<notin> set w)
   \<and> split_ws s =
       (case dropWhile is_space s of
          [] \<Rightarrow> []
        | x # xs \<Rightarrow> takeWhile (\<lambda>y. \<not> is_space y) (x # xs)
                    # split_ws (dropWhile (\<lambda>y. \<not> is_space y) (x # xs)))"
proof -
  have ex1: "fields ''0.1234, 0.9800, 0.0500, -0.2000\<newline>''
               = Some [''0.1234'', ''0.9800'', ''0.0500'', ''-0.2000'']"
    by (simp add: fields_def strip_def is_space_def)
  have ex2: "fields ''0.1234 0.9800  0.0500 -0.2000\<newline>''
               = Some [''0.1234'', ''0.9800'', ''0.0500'', ''-0.2000'']"
    by (simp add: fields_def strip_def is_space_def)
  have ex3: "fields ''0.1234, 0.9800, 0.0500\<newline>'' = Some [''0.1234,'', ''0.9800,'', ''0.0500'']"
    and st3: "strip ''0.1234, 0.9800, 0.0500\<newline>'' = ''0.1234, 0.9800, 0.0500''"
    by (simp_all add: fields_def strip_def is_space_def)
  have A: "convert_line float n ''0.1234, 0.9800, 0.0500, -0.2000\<newline>''
            = (Some (Floats [a, b, c, d]), None)
        \<and> convert_line float n ''0.1234 0.9800  0.0500 -0.2000\<newline>''
            = (Some (Floats [a, b, c, d]), None)"
    if "float ''0.1234'' = Some a \<and> float ''0.9800'' = Some b \<and> float ''0.0500'' = Some c
      \<and> float ''-0.2000'' = Some d"
    using that by (simp add: convert_line_def ex1 ex2)
  have B: "convert_line float n ''0.1234, 0.9800, 0.0500\<newline>''
       = (None, Some (WrongFieldCount n ''0.1234, 0.9800, 0.0500''))"
    by (simp add: convert_line_def ex3 st3)
  have C: "(length vals \<noteq> 4
            \<longrightarrow> convert_line float n line = (None, Some (WrongFieldCount n (strip line))))
        \<and> (length vals = 4 \<and> (\<exists>v \<in> set vals. float v = None)
            \<longrightarrow> convert_line float n line
                  = (Some (Strings vals), Some (NotFloat n (strip line))))
        \<and> (length vals = 4 \<and> those (map float vals) = Some nums
            \<longrightarrow> convert_line float n line = (Some (Floats nums), None))"
    if h: "strip line \<noteq> []
        \<and> cv = map strip (split_on CHR '','' (strip line))
        \<and> wv = map strip (split_ws (strip line))
        \<and> vals = (if length cv = 4 then cv else wv)"
  proof -
    from h have f: "fields line = Some vals"
      by (auto simp: fields_def Let_def)
    show ?thesis
      using those_map_None [of float vals]
      by (auto simp: convert_line_def f)
  qed
  have D: "convert_line float n line' = (None, None)" if "strip line' = []"
    using that by (simp add: convert_line_def fields_def)
  have E: "join CHR '','' (split_on CHR '','' s) = s"
    by (rule split_on_join)
  have F: "\<forall>w \<in> set (split_on CHR '','' s). CHR '','' \<notin> set w"
    using split_on_no_sep by blast
  from A B C D E F split_ws_unfold [of s] show ?thesis
    by blast
qed


theorem convert_line_witness:
  "convert_line decimal_literal 1 ''0.1234, 0.9800, 0.0500, -0.2000\<newline>''
     = (Some (Floats [1234 / 10000, 98 / 100, 5 / 100, - (2 / 10)]), None)
   \<and> convert_line decimal_literal 1 ''0.1234 0.9800  0.0500 -0.2000\<newline>''
       = (Some (Floats [1234 / 10000, 98 / 100, 5 / 100, - (2 / 10)]), None)
   \<and> convert_line decimal_literal 1 ''0.1234, 0.9800, 0.0500\<newline>''
       = (None, Some (WrongFieldCount 1 ''0.1234, 0.9800, 0.0500''))
   \<and> convert_line decimal_literal 1 ''0.1, fast, 0.3, 0.4\<newline>''
       = (Some (Strings [''0.1'', ''fast'', ''0.3'', ''0.4'']),
          Some (NotFloat 1 ''0.1, fast, 0.3, 0.4''))
   \<and> convert_line decimal_literal 1 ''1 2 3 4 5\<newline>''
       = (None, Some (WrongFieldCount 1 ''1 2 3 4 5''))
   \<and> convert_line decimal_literal 1 '' \<newline>'' = (None, None)"
proof -
  note defs = decimal_literal_def unsigned_literal_def is_digit_def digits_value_def
  have f: "decimal_literal ''0.1234'' = Some (1234 / 10000)
         \<and> decimal_literal ''0.9800'' = Some (98 / 100)
         \<and> decimal_literal ''0.0500'' = Some (5 / 100)
         \<and> decimal_literal ''-0.2000'' = Some (- (2 / 10))"
    by (simp add: defs)
  have s3: "strip ''0.1, fast, 0.3, 0.4\<newline>'' = ''0.1, fast, 0.3, 0.4''"
    by (simp add: strip_def is_space_def)
  have g: "strip ''0.1, fast, 0.3, 0.4\<newline>'' \<noteq> []
         \<and> [''0.1'', ''fast'', ''0.3'', ''0.4'']
             = map strip (split_on CHR '','' (strip ''0.1, fast, 0.3, 0.4\<newline>''))
         \<and> [''0.1,'', ''fast,'', ''0.3,'', ''0.4'']
             = map strip (split_ws (strip ''0.1, fast, 0.3, 0.4\<newline>''))
         \<and> [''0.1'', ''fast'', ''0.3'', ''0.4'']
             = (if length [''0.1'', ''fast'', ''0.3'', ''0.4''] = 4
                then [''0.1'', ''fast'', ''0.3'', ''0.4'']
                else [''0.1,'', ''fast,'', ''0.3,'', ''0.4''])"
    unfolding s3 by (simp add: strip_def is_space_def)
  have g': "length [''0.1'', ''fast'', ''0.3'', ''0.4''] = 4
         \<and> (\<exists>v \<in> set [''0.1'', ''fast'', ''0.3'', ''0.4'']. decimal_literal v = None)"
    by (simp add: defs)
  have s5: "strip ''1 2 3 4 5\<newline>'' = ''1 2 3 4 5''"
    by (simp add: strip_def is_space_def)
  have h: "strip ''1 2 3 4 5\<newline>'' \<noteq> []
         \<and> [''1 2 3 4 5''] = map strip (split_on CHR '','' (strip ''1 2 3 4 5\<newline>''))
         \<and> [''1'', ''2'', ''3'', ''4'', ''5''] = map strip (split_ws (strip ''1 2 3 4 5\<newline>''))
         \<and> [''1'', ''2'', ''3'', ''4'', ''5'']
             = (if length [''1 2 3 4 5''] = 4 then [''1 2 3 4 5'']
                else [''1'', ''2'', ''3'', ''4'', ''5''])"
    unfolding s5 by (simp add: strip_def is_space_def)
  have h': "length [''1'', ''2'', ''3'', ''4'', ''5''] \<noteq> 4"
    by simp
  have b: "strip '' \<newline>'' = []"
    by (simp add: strip_def is_space_def)
  note C = convert_line_cases
    [where float = decimal_literal and n = 1 and a = "1234 / 10000" and b = "98 / 100"
       and c = "5 / 100" and d = "- (2 / 10)" and line' = "'' \<newline>''"]
  note C3 = C [where line = "''0.1, fast, 0.3, 0.4\<newline>''"
       and cv = "[''0.1'', ''fast'', ''0.3'', ''0.4'']"
       and wv = "[''0.1,'', ''fast,'', ''0.3,'', ''0.4'']"
       and vals = "[''0.1'', ''fast'', ''0.3'', ''0.4'']"]
  note C5 = C [where line = "''1 2 3 4 5\<newline>''"
       and cv = "[''1 2 3 4 5'']"
       and wv = "[''1'', ''2'', ''3'', ''4'', ''5'']"
       and vals = "[''1'', ''2'', ''3'', ''4'', ''5'']"]
  note p1 = C3 [THEN conjunct1, THEN mp, OF f]
  note p2 = C3 [THEN conjunct2, THEN conjunct1]
  note p3 = C3 [THEN conjunct2, THEN conjunct2, THEN conjunct1, THEN mp, OF g,
                THEN conjunct2, THEN conjunct1, THEN mp, OF g', unfolded s3]
  note p4 = C5 [THEN conjunct2, THEN conjunct2, THEN conjunct1, THEN mp, OF h,
                THEN conjunct1, THEN mp, OF h', unfolded s5]
  note p5 = C3 [THEN conjunct2, THEN conjunct2, THEN conjunct2, THEN conjunct1, THEN mp, OF b]
  from p1 p2 p3 p4 p5 show ?thesis
    by (intro conjI) (erule conjunct1, erule conjunct2, assumption+)
qed

text \<open>
  Claim C9 as stated fails for a line that is empty once stripped: its field count is 1
  under the comma split and 0 under the whitespace split, so it is not 4, and the line is
  dropped by the guard of line 29 with no warning.
\<close>

theorem blank_line_counterexample:
  "length (map strip (split_on CHR '','' (strip ''  \<newline>''))) = 1
   \<and> length (map strip (split_ws (strip ''  \<newline>''))) = 0
   \<and> convert_line decimal_literal 7 ''  \<newline>'' = (None, None)"
  by (simp add: convert_line_def fields_def strip_def is_space_def)

subsection \<open>The step loop ends\<close>

text \<open>
  Claim C6, as amended: the step loop of every episode terminates (\<open>episode_loop\<close> is a
  total function: each pass that does not leave the loop increases \<^verbatim>\<open>t\<close>, which is
  bounded by \<^verbatim>\<open>max_steps + num_steps_wait\<close>). It is left in one of three ways: an acting
  step reported completion, the counter reached \<^verbatim>\<open>max_steps + num_steps_wait\<close>, or a step
  raised an exception, which was caught. At most \<^verbatim>\<open>max_steps + num_steps_wait\<close> calls of
  \<^verbatim>\<open>env.step\<close> are made, and \<^verbatim>\<open>max_steps\<close> is one of the five values of the table.
\<close>

theorem step_loop_bounded:
  assumes "begin_episode X task episode_idx v = (Inr (), v2)"
    and "max_steps_for (task_suite_name cfg) = Some max_steps"
    and "episode_loop X cfg (task_description task) max_steps v2 = (ex, v3)"
  shows "int (env_steps (drop (length (events v2)) (events v3)))
           \<le> max 0 (max_steps + num_steps_wait cfg)
       \<and> (case ex of
             Completed \<Rightarrow> done_flag v3 = Some True
           | Exhausted \<Rightarrow> t v3 = max 0 (max_steps + num_steps_wait cfg)
           | Failed e \<Rightarrow> Caught e \<in> set (drop (length (events v2)) (events v3)))
       \<and> max_steps_for ''libero_spatial'' = Some 220
       \<and> max_steps_for ''libero_object'' = Some 280
       \<and> max_steps_for ''libero_goal'' = Some 300
       \<and> max_steps_for ''libero_10'' = Some 520
       \<and> max_steps_for ''libero_90'' = Some 400
       \<and> max_steps \<in> {220, 280, 300, 520, 400}"
proof -
  from begin_episode_effect [OF assms(1)] have t0: "t v2 = 0" by auto
  from episode_loop_effect [OF assms(3)] obtain es where e:
    "body_effect v2 es v3"
    "int (env_steps es) \<le> max 0 (max_steps + num_steps_wait cfg - t v2)"
    "ex = Completed \<longrightarrow> done_flag v3 = Some True"
    "ex = Exhausted \<longrightarrow> t v3 = max (t v2) (max_steps + num_steps_wait cfg)"
    "\<forall>e. ex = Failed e \<longrightarrow> Caught e \<in> set es"
    by blast
  from e(1) have n: "drop (length (events v2)) (events v3) = es"
    by (simp add: body_effect_def)
  have "max_steps \<in> {220, 280, 300, 520, 400}"
    using assms(2) by (auto simp: max_steps_for_def split: if_splits)
  moreover have "max_steps_for ''libero_spatial'' = Some 220
       \<and> max_steps_for ''libero_object'' = Some 280
       \<and> max_steps_for ''libero_goal'' = Some 300
       \<and> max_steps_for ''libero_10'' = Some 520
       \<and> max_steps_for ''libero_90'' = Some 400"
    by (simp add: max_steps_for_def)
  ultimately show ?thesis
    using e t0 unfolding n by (cases ex) auto
qed


theorem step_loop_witness:
  "begin_episode (demo_externals completes_from_third) (hd demo_suite) 0 (init_vars 0 Map.empty)
     = (Inr (), snd (begin_episode (demo_externals completes_from_third) (hd demo_suite) 0
                       (init_vars 0 Map.empty)))
   \<and> max_steps_for (task_suite_name demo_cfg) = Some 220
   \<and> fst (episode_loop (demo_externals completes_from_third) demo_cfg ''pick'' 220
            (snd (begin_episode (demo_externals completes_from_third) (hd demo_suite) 0
                    (init_vars 0 Map.empty)))) = Completed
   \<and> done_flag (snd (episode_loop (demo_externals completes_from_third) demo_cfg ''pick'' 220
            (snd (begin_episode (demo_externals completes_from_third) (hd demo_suite) 0
                    (init_vars 0 Map.empty))))) = Some True"
proof -
  define X where "X = demo_externals completes_from_third"
  define v2 where "v2 = snd (begin_episode X (hd demo_suite) 0 (init_vars 0 Map.empty))"
  define ex where "ex = fst (episode_loop X demo_cfg ''pick'' 220 v2)"
  define v3 where "v3 = snd (episode_loop X demo_cfg ''pick'' 220 v2)"
  have h1: "begin_episode X (hd demo_suite) 0 (init_vars 0 Map.empty) = (Inr (), v2)"
    by (simp add: v2_def begin_episode_def demo_suite_def Let_def split: prod.splits)
  have h2: "max_steps_for (task_suite_name demo_cfg) = Some 220"
    by (simp add: max_steps_for_def demo_cfg_def)
  have d: "task_description (hd demo_suite) = ''pick''"
    by (simp add: demo_suite_def)
  have h3: "episode_loop X demo_cfg (task_description (hd demo_suite)) 220 v2 = (ex, v3)"
    by (simp add: d ex_def v3_def)
  have c: "ex = Completed"
    unfolding ex_def v2_def X_def by code_simp
  from step_loop_bounded [OF h1 h2 h3] c have "done_flag v3 = Some True"
    by simp
  with h1 h2 c show ?thesis
    unfolding X_def v2_def ex_def v3_def by simp
qed

text \<open>
  Claim C6 as stated names two ways out of the loop. A step that raises is a third: here
  the first step raises, the loop is left with no completion reported and with the counter
  at 0, far from 222.
\<close>

theorem step_loop_counterexample:
  "fst (episode_loop (demo_externals always_raises) demo_cfg ''pick'' 220 demo_vars)
     = Failed ''sim crashed''
   \<and> done_flag (snd (episode_loop (demo_externals always_raises) demo_cfg ''pick'' 220
                       demo_vars)) = None
   \<and> t (snd (episode_loop (demo_externals always_raises) demo_cfg ''pick'' 220 demo_vars)) = 0
   \<and> t demo_vars = 0"
  by code_simp

subsection \<open>The success flag that is recorded\<close>



subsection \<open>The tallies\<close>

lemma leaf_at_update:
  "leaf_at (update_result_file fs description d) path k1 k2
     = (if path = result_file_path description \<and> k1 = ''[]'' \<and> k2 = ''0''
        then Some \<lparr> total_times = total_times (leaf_or_zero fs description) + 1,
                    success_times = success_times (leaf_or_zero fs description)
                                      + (if d then 1 else 0) \<rparr>
        else leaf_at fs path k1 k2)"
  by (auto simp: leaf_at_def leaf_of_def leaf_or_zero_def update_result_file_def
      update_data_def Let_def split: option.splits)

lemma leaf_or_zero_ok: "files_ok fs \<Longrightarrow> leaf_ok (leaf_or_zero fs description)"
  by (auto simp: files_ok_def leaf_or_zero_def leaf_of_def leaf_at_def leaf_ok_def
      split: option.splits)

lemma leaf_or_zero_at:
  "leaf_at fs (result_file_path description) ''[]'' ''0'' = Some l
     \<Longrightarrow> leaf_or_zero fs description = l"
  by (auto simp: leaf_or_zero_def leaf_of_def leaf_at_def split: option.splits)

lemma files_ok_update:
  "files_ok fs \<Longrightarrow> files_ok (update_result_file fs description d)"
  using leaf_or_zero_ok [of fs description]
  by (auto simp: files_ok_def leaf_at_update leaf_ok_def)

lemma files_le_update: "files_le fs (update_result_file fs description d)"
  by (auto simp: files_le_def leaf_at_update dest: leaf_or_zero_at)

lemma files_le_refl: "files_le fs fs"
  by (simp add: files_le_def)

lemma tallies_inv_init: "files_ok fs \<Longrightarrow> tallies_inv (init_vars w fs) 0"
  by (simp add: tallies_inv_def init_vars_def snapshot_ok_def)

lemma tallies_inv_begin:
  assumes "tallies_inv v 0" and "begin_episode X task episode_idx v = (r, v2)"
  shows "tallies_inv v2 0"
  using assms(1) begin_episode_effect [OF assms(2)]
  by (auto simp: tallies_inv_def)

lemma tallies_inv_loop:
  assumes "tallies_inv v2 0"
    and "episode_loop X cfg description max_steps v2 = (ex, v3)"
  shows "tallies_inv v3 (if ex = Completed then 1 else 0)"
  using assms(1) episode_loop_effect [OF assms(2)]
  by (auto simp: tallies_inv_def body_effect_def)

lemma tallies_inv_finish:
  assumes "tallies_inv v3 k" and "k = 0 \<or> k = 1"
    and "finish_episode task v3 = (r, v')"
  shows "tallies_inv v' 0"
proof -
  define s3 where "s3 = last (history v3)"
  define s4 where "s4 = \<lparr> task_start = False, s_task_episodes = task_episodes v3 + 1,
       s_task_successes = task_successes v3, s_total_episodes = total_episodes v3 + 1,
       s_total_successes = total_successes v3, s_files = json_files v3 \<rparr>"
  from assms(1) have i: "history v3 \<noteq> []" "list_all snapshot_ok (history v3)"
    "successively advances (history v3)" "snapshot_ok s3"
    "s_task_episodes s3 = task_episodes v3" "s_total_episodes s3 = total_episodes v3"
    "s_files s3 = json_files v3" "task_successes v3 = s_task_successes s3 + k"
    "total_successes v3 = s_total_successes s3 + k"
    by (auto simp: tallies_inv_def s3_def list_all_iff)
  have ok4: "snapshot_ok s4"
    using i(4-9) assms(2) by (auto simp: snapshot_ok_def s4_def)
  have adv34: "advances s3 s4"
    using i(4-9) assms(2) by (auto simp: advances_def s4_def files_le_refl)
  have h4: "successively advances (history v3 @ [s4])"
    using i(1,3) adv34 by (simp add: successively_append_iff s3_def)
  show ?thesis
  proof (cases "done_flag v3")
    case None
    with assms(3) have "v' = snap False (v3\<lparr> task_episodes := task_episodes v3 + 1,
                              total_episodes := total_episodes v3 + 1 \<rparr>)"
      by (simp add: finish_episode_def Let_def snap_def)
    then have "history v' = history v3 @ [s4]" "task_episodes v' = task_episodes v3 + 1"
      "total_episodes v' = total_episodes v3 + 1" "json_files v' = json_files v3"
      "task_successes v' = task_successes v3" "total_successes v' = total_successes v3"
      by (simp_all add: snap_def s4_def)
    with i(2) ok4 h4 show ?thesis
      by (simp add: tallies_inv_def s4_def)
  next
    case (Some d)
    define s5 where "s5 = s4\<lparr> s_files := update_result_file (json_files v3) (task_description task) d \<rparr>"
    from Some assms(3) have
      "history v' = history v3 @ [s4, s5]" "task_episodes v' = task_episodes v3 + 1"
      "total_episodes v' = total_episodes v3 + 1"
      "json_files v' = update_result_file (json_files v3) (task_description task) d"
      "task_successes v' = task_successes v3" "total_successes v' = total_successes v3"
      by (auto simp: finish_episode_def Let_def snap_def s4_def s5_def)
    moreover have "snapshot_ok s5"
      using ok4 by (simp add: snapshot_ok_def s5_def s4_def files_ok_update)
    moreover have "advances s4 s5"
      by (simp add: advances_def s5_def s4_def files_le_update)
    then have "successively advances (history v3 @ [s4, s5])"
      using i(1,3) adv34 by (simp add: successively_append_iff s3_def)
    ultimately show ?thesis
      using i(2) ok4 by (simp add: tallies_inv_def s5_def s4_def)
  qed
qed

lemma tallies_inv_episode:
  assumes "tallies_inv v 0" and "run_episode X cfg task episode_idx v = (r, v')"
  shows "tallies_inv v' 0"
proof -
  obtain r1 v2 where b: "begin_episode X task episode_idx v = (r1, v2)"
    by (cases "begin_episode X task episode_idx v")
  have i2: "tallies_inv v2 0"
    using assms(1) b by (rule tallies_inv_begin)
  show ?thesis
  proof (cases r1)
    case (Inl e)
    with assms(2) b i2 show ?thesis by (simp add: run_episode_def)
  next
    case (Inr u)
    show ?thesis
    proof (cases "max_steps_for (task_suite_name cfg)")
      case None
      with assms(2) b Inr i2 show ?thesis by (simp add: run_episode_def)
    next
      case (Some max_steps)
      obtain ex v3 where l: "episode_loop X cfg (task_description task) max_steps v2 = (ex, v3)"
        by (cases "episode_loop X cfg (task_description task) max_steps v2")
      from assms(2) b Inr Some l have f: "finish_episode task v3 = (r, v')"
        by (simp add: run_episode_def)
      have "tallies_inv v3 (if ex = Completed then 1 else 0)"
        using i2 l by (rule tallies_inv_loop)
      moreover have "(if ex = Completed then 1 else 0 :: int) = 0
                   \<or> (if ex = Completed then 1 else 0 :: int) = 1"
        by simp
      ultimately show ?thesis
        using f by (rule tallies_inv_finish)
    qed
  qed
qed

lemma tallies_inv_episodes:
  "tallies_inv v 0 \<Longrightarrow> run_episodes X cfg task idxs v = (r, v') \<Longrightarrow> tallies_inv v' 0"
proof (induction idxs arbitrary: v)
  case Nil
  then show ?case by simp
next
  case (Cons i idxs)
  obtain r1 v1 where e: "run_episode X cfg task i v = (r1, v1)"
    by (cases "run_episode X cfg task i v")
  from Cons.prems(1) e have i1: "tallies_inv v1 0" by (rule tallies_inv_episode)
  show ?case
  proof (cases r1)
    case (Inl err)
    with Cons.prems(2) e i1 show ?thesis by simp
  next
    case (Inr u)
    with Cons.prems(2) e have "run_episodes X cfg task idxs v1 = (r, v')" by simp
    with i1 show ?thesis by (rule Cons.IH)
  qed
qed

lemma tallies_inv_task_start:
  assumes "tallies_inv v 0"
  shows "tallies_inv (snap True (v\<lparr> world := w, events := es, task_episodes := 0,
                                    task_successes := 0, total_steps := 0 \<rparr>)) 0"
proof -
  define s where "s = last (history v)"
  define s' where "s' = \<lparr> task_start = True, s_task_episodes = 0, s_task_successes = 0,
      s_total_episodes = total_episodes v, s_total_successes = total_successes v,
      s_files = json_files v \<rparr>"
  from assms have i: "history v \<noteq> []" "list_all snapshot_ok (history v)"
    "successively advances (history v)" "snapshot_ok s"
    "s_total_episodes s = total_episodes v" "s_files s = json_files v"
    "total_successes v = s_total_successes s"
    by (auto simp: tallies_inv_def s_def list_all_iff)
  have "snapshot_ok s'"
    using i(4-7) by (simp add: snapshot_ok_def s'_def)
  moreover have "advances s s'"
    using i(5-7) by (simp add: advances_def s'_def files_le_refl)
  then have "successively advances (history v @ [s'])"
    using i(1,3) by (simp add: successively_append_iff s_def)
  ultimately show ?thesis
    using i(2) by (simp add: tallies_inv_def snap_def s'_def)
qed

lemma tallies_inv_task:
  assumes "tallies_inv v 0" and "run_task X cfg task_suite task_id v = (r, v')"
  shows "tallies_inv v' 0"
proof (cases "0 < length task_suite")
  case False
  with assms show ?thesis by (simp add: run_task_def)
next
  case True
  define v1 where "v1 = snap True (v\<lparr> world := get_libero_env X (world v) (task_suite ! 0),
      events := events v @ [MakeEnv 0], task_episodes := 0, task_successes := 0,
      total_steps := 0 \<rparr>)"
  have i1: "tallies_inv v1 0"
    unfolding v1_def using assms(1) by (rule tallies_inv_task_start)
  obtain r2 v2 where e: "run_episodes X cfg (task_suite ! 0)
      [0 ..< nat (num_trials_per_task cfg)] v1 = (r2, v2)"
    by (cases "run_episodes X cfg (task_suite ! 0) [0 ..< nat (num_trials_per_task cfg)] v1")
  from i1 e have i2: "tallies_inv v2 0" by (rule tallies_inv_episodes)
  from assms(2) True e have "v' = v2"
    by (auto simp: run_task_def Let_def v1_def split: sum.splits if_splits)
  with i2 show ?thesis by simp
qed

lemma tallies_inv_tasks:
  "tallies_inv v 0 \<Longrightarrow> run_tasks X cfg task_suite ids v = (r, v') \<Longrightarrow> tallies_inv v' 0"
proof (induction ids arbitrary: v)
  case Nil
  then show ?case by simp
next
  case (Cons i ids)
  obtain r1 v1 where e: "run_task X cfg task_suite i v = (r1, v1)"
    by (cases "run_task X cfg task_suite i v")
  from Cons.prems(1) e have i1: "tallies_inv v1 0" by (rule tallies_inv_task)
  show ?case
  proof (cases r1)
    case (Inl err)
    with Cons.prems(2) e i1 show ?thesis by simp
  next
    case (Inr u)
    with Cons.prems(2) e have "run_tasks X cfg task_suite ids v1 = (r, v')" by simp
    with i1 show ?thesis by (rule Cons.IH)
  qed
qed

text \<open>
  Claim C7, as amended. When the result files found on disk satisfy the bound, then at
  every point where the script reports or stores its counters (the start of the run, the
  start of each task pass, and in every episode after lines 336 to 337 and after the
  result file is written) and at the end of the run, however it ends, every tally
  satisfies \<open>0 \<le> successes \<le> episodes\<close>: the task tally, the run totals and every leaf
  of every result file. From each of these points to the next, the run totals and the
  leaf counters do not decrease; the task tally does not decrease within a task pass and
  starts again from 0 at each pass (line 174). The step loop of an episode leaves the
  episode tallies as they are and adds at most one to each success tally, so between the
  loop and lines 336 to 337 the success tallies can be ahead by one.
\<close>

theorem tallies_bounded_and_monotone:
  assumes "files_ok fs"
  shows "list_all snapshot_ok (history (snd (eval_libero X cfg w fs)))
       \<and> successively advances (history (snd (eval_libero X cfg w fs)))
       \<and> 0 \<le> task_successes (snd (eval_libero X cfg w fs))
       \<and> task_successes (snd (eval_libero X cfg w fs))
           \<le> task_episodes (snd (eval_libero X cfg w fs))
       \<and> 0 \<le> total_successes (snd (eval_libero X cfg w fs))
       \<and> total_successes (snd (eval_libero X cfg w fs))
           \<le> total_episodes (snd (eval_libero X cfg w fs))
       \<and> files_ok (json_files (snd (eval_libero X cfg w fs)))
       \<and> (episode_loop Xl cfgl description max_steps vl = (ex, vl')
          \<longrightarrow> task_episodes vl' = task_episodes vl \<and> total_episodes vl' = total_episodes vl
            \<and> task_successes vl \<le> task_successes vl'
            \<and> task_successes vl' \<le> task_successes vl + 1
            \<and> total_successes vl \<le> total_successes vl'
            \<and> total_successes vl' \<le> total_successes vl + 1)"
proof -
  define v0 :: "('a, 'b, 'c, 'd) vars" where "v0 = init_vars w fs"
  define vf where "vf = snd (eval_libero X cfg w fs)"
  have L: "task_episodes vl' = task_episodes vl \<and> total_episodes vl' = total_episodes vl
            \<and> task_successes vl \<le> task_successes vl'
            \<and> task_successes vl' \<le> task_successes vl + 1
            \<and> total_successes vl \<le> total_successes vl'
            \<and> total_successes vl' \<le> total_successes vl + 1"
    if e: "episode_loop Xl cfgl description max_steps vl = (ex, vl')"
    using episode_loop_effect [OF e] by (auto simp: body_effect_def)
  have i0: "tallies_inv v0 0"
    unfolding v0_def using assms by (rule tallies_inv_init)
  have inv: "tallies_inv vf 0"
  proof (cases "benchmark_dict X (task_suite_name cfg)")
    case None
    with i0 show ?thesis
      by (auto simp: vf_def eval_libero_def Let_def v0_def split: sum.splits)
  next
    case (Some task_suite)
    obtain r v where t: "run_tasks X cfg task_suite [0 ..< length task_suite] v0 = (r, v)"
      by (cases "run_tasks X cfg task_suite [0 ..< length task_suite] v0")
    from i0 t have "tallies_inv v 0" by (rule tallies_inv_tasks)
    with i0 Some t show ?thesis
      unfolding v0_def vf_def by (auto simp: eval_libero_def Let_def split: sum.splits)
  qed
  then have h: "history vf \<noteq> []" "list_all snapshot_ok (history vf)"
    "successively advances (history vf)"
    "s_task_episodes (last (history vf)) = task_episodes vf"
    "s_total_episodes (last (history vf)) = total_episodes vf"
    "s_files (last (history vf)) = json_files vf"
    "task_successes vf = s_task_successes (last (history vf))"
    "total_successes vf = s_total_successes (last (history vf))"
    by (simp_all add: tallies_inv_def)
  from h(1,2) have "snapshot_ok (last (history vf))"
    by (simp add: list_all_iff)
  with h L show ?thesis
    unfolding vf_def [symmetric] by (simp add: snapshot_ok_def)
qed

theorem tallies_witness:
  "files_ok Map.empty
   \<and> list_all snapshot_ok
       (history (snd (eval_libero (demo_externals completes_from_third) demo_cfg (0::nat)
                        Map.empty)))
   \<and> successively advances
       (history (snd (eval_libero (demo_externals completes_from_third) demo_cfg (0::nat)
                        Map.empty)))
   \<and> task_successes (snd (eval_libero (demo_externals completes_from_third) demo_cfg (0::nat)
                            Map.empty))
       \<le> task_episodes (snd (eval_libero (demo_externals completes_from_third) demo_cfg (0::nat)
                                Map.empty))
   \<and> files_ok (json_files (snd (eval_libero (demo_externals completes_from_third) demo_cfg
                                   (0::nat) Map.empty)))
   \<and> map (\<lambda>s. (task_start s, s_task_episodes s, s_task_successes s, s_total_episodes s,
                s_total_successes s))
       (history (snd (eval_libero (demo_externals completes_from_third) demo_cfg (0::nat)
                        Map.empty)))
       = [(False, 0, 0, 0, 0), (True, 0, 0, 0, 0), (False, 1, 1, 1, 1), (False, 1, 1, 1, 1),
          (False, 2, 2, 2, 2), (False, 2, 2, 2, 2), (True, 0, 0, 2, 2), (False, 1, 1, 3, 3),
          (False, 1, 1, 3, 3), (False, 2, 2, 4, 4), (False, 2, 2, 4, 4)]"
proof -
  have h: "files_ok Map.empty"
    by (simp add: files_ok_def leaf_at_def)
  have c: "map (\<lambda>s. (task_start s, s_task_episodes s, s_task_successes s, s_total_episodes s,
                     s_total_successes s))
       (history (snd (eval_libero (demo_externals completes_from_third) demo_cfg (0::nat)
                        Map.empty)))
       = [(False, 0, 0, 0, 0), (True, 0, 0, 0, 0), (False, 1, 1, 1, 1), (False, 1, 1, 1, 1),
          (False, 2, 2, 2, 2), (False, 2, 2, 2, 2), (True, 0, 0, 2, 2), (False, 1, 1, 3, 3),
          (False, 1, 1, 3, 3), (False, 2, 2, 4, 4), (False, 2, 2, 4, 4)]"
    by code_simp
  from tallies_bounded_and_monotone
         [OF h, of "demo_externals completes_from_third" demo_cfg "0::nat"] h c
  show ?thesis by blast
qed

text \<open>
  Claim C7 as stated fails in two places. Lines 326 to 327 increment the success tallies
  before lines 336 to 337 increment the episode tallies: when the first episode of the run
  below leaves its step loop, the task tally has 1 success and 0 episodes. And line 174
  resets the task tally at each task pass: over the run the task's episode count goes from
  2 back to 0.
\<close>

theorem tallies_counterexample:
  "task_successes (snd (episode_loop (demo_externals completes_from_third) demo_cfg ''pick'' 220
                          demo_loop_entry)) = 1
   \<and> task_episodes (snd (episode_loop (demo_externals completes_from_third) demo_cfg ''pick'' 220
                            demo_loop_entry)) = 0
   \<and> total_successes (snd (episode_loop (demo_externals completes_from_third) demo_cfg ''pick''
                             220 demo_loop_entry)) = 1
   \<and> total_episodes (snd (episode_loop (demo_externals completes_from_third) demo_cfg ''pick''
                            220 demo_loop_entry)) = 0
   \<and> map s_task_episodes (history (snd (demo_run completes_from_third demo_cfg)))
       = [0, 0, 1, 1, 2, 2, 0, 1, 1, 2, 2]"
  by code_simp

subsection \<open>Which tasks are evaluated\<close>

lemma finish_episode_schedule:
  assumes "finish_episode task v3 = (r, v')"
  shows "schedule (events v') = schedule (events v3)"
  using assms
  by (auto simp: finish_episode_def snap_def Let_def schedule_append split: option.splits)

lemma run_episode_schedule:
  assumes "run_episode X cfg task episode_idx v = (Inr (), v')"
  shows "schedule (events v')
           = schedule (events v) @ [SetInitState (initial_states task ! episode_idx)]
       \<and> episode_idx < length (initial_states task)"
proof -
  obtain r1 v2 where b: "begin_episode X task episode_idx v = (r1, v2)"
    by (cases "begin_episode X task episode_idx v")
  with assms obtain max_steps where r1: "r1 = Inr ()"
    and m: "max_steps_for (task_suite_name cfg) = Some max_steps"
    by (cases r1; cases "max_steps_for (task_suite_name cfg)") (auto simp: run_episode_def)
  obtain ex v3 where l: "episode_loop X cfg (task_description task) max_steps v2 = (ex, v3)"
    by (cases "episode_loop X cfg (task_description task) max_steps v2")
  from assms b r1 m l have f: "finish_episode task v3 = (Inr (), v')"
    by (simp add: run_episode_def)
  from begin_episode_effect [OF b] r1 obtain es1 where e1:
    "events v2 = events v @ es1"
    "schedule es1 = [SetInitState (initial_states task ! episode_idx)]"
    "episode_idx < length (initial_states task)"
    by auto
  from episode_loop_effect [OF l] obtain es2 where e2:
    "events v3 = events v2 @ es2" "schedule es2 = []"
    by (auto simp: body_effect_def)
  from finish_episode_schedule [OF f] e1 e2 show ?thesis
    by (simp add: schedule_append)
qed

lemma run_episodes_schedule:
  "run_episodes X cfg task idxs v = (Inr (), v') \<Longrightarrow>
     schedule (events v')
       = schedule (events v) @ map (\<lambda>i. SetInitState (initial_states task ! i)) idxs
     \<and> list_all (\<lambda>i. i < length (initial_states task)) idxs"
proof (induction idxs arbitrary: v)
  case Nil
  then show ?case by simp
next
  case (Cons i idxs)
  obtain r1 v1 where e: "run_episode X cfg task i v = (r1, v1)"
    by (cases "run_episode X cfg task i v")
  with Cons.prems have r1: "r1 = Inr ()" and rest: "run_episodes X cfg task idxs v1 = (Inr (), v')"
    by (cases r1; simp)+
  from run_episode_schedule [OF e [unfolded r1]] Cons.IH [OF rest] show ?case
    by simp
qed

lemma run_task_schedule:
  assumes "run_task X cfg task_suite task_id v = (Inr (), v')"
  shows "schedule (events v') = schedule (events v) @ task_schedule cfg (task_suite ! 0)
       \<and> nat (num_trials_per_task cfg) \<le> length (initial_states (task_suite ! 0))"
proof -
  from assms have ne: "0 < length task_suite"
    by (auto simp: run_task_def split: if_splits)
  define v1 where "v1 = snap True (v\<lparr> world := get_libero_env X (world v) (task_suite ! 0),
      events := events v @ [MakeEnv 0], task_episodes := 0, task_successes := 0,
      total_steps := 0 \<rparr>)"
  obtain r2 v2 where e: "run_episodes X cfg (task_suite ! 0)
      [0 ..< nat (num_trials_per_task cfg)] v1 = (r2, v2)"
    by (cases "run_episodes X cfg (task_suite ! 0) [0 ..< nat (num_trials_per_task cfg)] v1")
  from assms ne e have r2: "r2 = Inr ()" and v2: "v' = v2"
    by (auto simp: run_task_def Let_def v1_def split: sum.splits if_splits)
  have "schedule (events v1) = schedule (events v) @ [MakeEnv 0]"
    by (simp add: v1_def snap_def schedule_append)
  with run_episodes_schedule [OF e [unfolded r2]] v2
  have "schedule (events v') = schedule (events v) @ task_schedule cfg (task_suite ! 0)"
    and a: "list_all (\<lambda>i. i < length (initial_states (task_suite ! 0)))
              [0 ..< nat (num_trials_per_task cfg)]"
    by (simp_all add: task_schedule_def)
  moreover from a have "nat (num_trials_per_task cfg) \<le> length (initial_states (task_suite ! 0))"
    by (cases "nat (num_trials_per_task cfg)") (auto simp: list_all_iff)
  ultimately show ?thesis by simp
qed

lemma run_tasks_schedule:
  "run_tasks X cfg task_suite ids v = (Inr (), v') \<Longrightarrow>
     schedule (events v')
       = schedule (events v) @ concat (replicate (length ids) (task_schedule cfg (task_suite ! 0)))
     \<and> (ids \<noteq> [] \<longrightarrow>
          nat (num_trials_per_task cfg) \<le> length (initial_states (task_suite ! 0)))"
proof (induction ids arbitrary: v)
  case Nil
  then show ?case by simp
next
  case (Cons i ids)
  obtain r1 v1 where e: "run_task X cfg task_suite i v = (r1, v1)"
    by (cases "run_task X cfg task_suite i v")
  with Cons.prems have r1: "r1 = Inr ()" and rest: "run_tasks X cfg task_suite ids v1 = (Inr (), v')"
    by (cases r1; simp)+
  from run_task_schedule [OF e [unfolded r1]] Cons.IH [OF rest] show ?case
    by simp
qed

text \<open>
  Claim C2, as amended: the orchestrator makes one pass per task of the suite, but line
  163 overwrites the loop variable with 0, so every pass evaluates task 0. In a run that
  finishes without error, a suite of N tasks gives N passes; each pass creates the
  environment of task 0 and runs \<^verbatim>\<open>num_trials_per_task\<close> episodes, the episode with index
  \<open>i\<close> starting from initial state \<open>i\<close> of task 0 (which exists).
\<close>

theorem every_pass_evaluates_task_0:
  assumes "fst (eval_libero X cfg w fs) = Inr ()"
    and "benchmark_dict X (task_suite_name cfg) = Some task_suite"
  shows "schedule (events (snd (eval_libero X cfg w fs)))
           = concat (replicate (length task_suite) (task_schedule cfg (task_suite ! 0)))
       \<and> (task_suite \<noteq> [] \<longrightarrow>
            nat (num_trials_per_task cfg) \<le> length (initial_states (task_suite ! 0)))"
proof -
  define v0 :: "('a, 'b, 'c, 'd) vars" where "v0 = init_vars w fs"
  obtain r v where t: "run_tasks X cfg task_suite [0 ..< length task_suite] v0 = (r, v)"
    by (cases "run_tasks X cfg task_suite [0 ..< length task_suite] v0")
  from assms t have r: "r = Inr ()" and v: "snd (eval_libero X cfg w fs) = v"
    by (auto simp: eval_libero_def Let_def v0_def split: sum.splits if_splits)
  have "schedule (events v0) = []"
    by (simp add: v0_def init_vars_def)
  with run_tasks_schedule [OF t [unfolded r]] v show ?thesis
    by simp
qed


theorem every_pass_witness:
  "fst (eval_libero (demo_externals completes_from_third) demo_cfg (0::nat) Map.empty) = Inr ()
   \<and> benchmark_dict (demo_externals completes_from_third) (task_suite_name demo_cfg)
       = Some demo_suite
   \<and> schedule (events (snd (eval_libero (demo_externals completes_from_third) demo_cfg (0::nat)
                               Map.empty)))
       = concat (replicate (length demo_suite) (task_schedule demo_cfg (demo_suite ! 0)))
   \<and> nat (num_trials_per_task demo_cfg) \<le> length (initial_states (demo_suite ! 0))"
proof -
  have h1: "fst (eval_libero (demo_externals completes_from_third) demo_cfg (0::nat) Map.empty)
              = Inr ()"
    by code_simp
  have h2: "benchmark_dict (demo_externals completes_from_third) (task_suite_name demo_cfg)
              = Some demo_suite"
    by (simp add: demo_externals_def demo_cfg_def)
  have ne: "demo_suite \<noteq> []"
    by (simp add: demo_suite_def)
  from every_pass_evaluates_task_0 [OF h1 h2] h1 h2 ne show ?thesis
    by blast
qed

text \<open>
  Claim C2 as stated fails: the suite below has two tasks, with initial states 10, 11, 12
  and 20, 21, 22. The run finishes without error, creates the environment of task 0 twice
  and never sets an initial state of task 1.
\<close>

theorem every_task_counterexample:
  "fst (demo_run completes_from_third demo_cfg) = Inr ()
   \<and> schedule (events (snd (demo_run completes_from_third demo_cfg)))
       = [MakeEnv 0, SetInitState 10, SetInitState 11, MakeEnv 0, SetInitState 10,
          SetInitState 11]
   \<and> length demo_suite = 2
   \<and> initial_states (demo_suite ! 1) = [20, 21, 22]"
  by code_simp

end
